theory Spec2Isabelle
  imports Complex_Main "HOL-Library.Sublist" "HOL-Library.Multiset"
begin

unbundle bit_operations_syntax

section \<open>Python strings\<close>

text \<open>
  A Python \<open>str\<close> is modelled as a \<^typ>\<open>string\<close>: a list of code points below 256
  (the Latin-1 range), one \<^typ>\<open>char\<close> per code point. The character classes below are
  those of Python 3 on that range: \<open>str.isspace\<close> (which is also what \<open>\s\<close> matches in a
  \<open>str\<close> pattern and what \<open>str.strip()\<close> removes), the line boundaries of
  \<open>str.splitlines\<close>, and the decimal digits matched by \<open>\d\<close>.
\<close>

definition is_space :: "char \<Rightarrow> bool" where
  "is_space c = (c \<in> set [CHR 0x09, CHR 0x0A, CHR 0x0B, CHR 0x0C, CHR 0x0D,
     CHR 0x1C, CHR 0x1D, CHR 0x1E, CHR 0x1F, CHR 0x20, CHR 0x85, CHR 0xA0])"

definition is_linebreak :: "char \<Rightarrow> bool" where
  "is_linebreak c = (c \<in> set [CHR 0x0A, CHR 0x0B, CHR 0x0C, CHR 0x0D,
     CHR 0x1C, CHR 0x1D, CHR 0x1E, CHR 0x85])"

definition is_digit :: "char \<Rightarrow> bool" where
  "is_digit c = (c \<in> set ''0123456789'')"

text \<open>\<open>str.strip()\<close> with no argument: whitespace is removed at both ends.\<close>

definition lstrip :: "string \<Rightarrow> string" where
  "lstrip s = dropWhile is_space s"

definition rstrip :: "string \<Rightarrow> string" where
  "rstrip s = rev (dropWhile is_space (rev s))"

definition strip :: "string \<Rightarrow> string" where
  "strip s = rstrip (lstrip s)"

text \<open>\<open>sep.join(parts)\<close>.\<close>

fun join :: "string \<Rightarrow> string list \<Rightarrow> string" where
  "join sep [] = []"
| "join sep [x] = x"
| "join sep (x # y # ys) = x @ sep @ join sep (y # ys)"

text \<open>\<open>pat in s\<close> for two strings: \<open>pat\<close> occurs in \<open>s\<close> as a contiguous substring.\<close>

fun py_in :: "string \<Rightarrow> string \<Rightarrow> bool" where
  "py_in pat [] = (pat = [])"
| "py_in pat (c # cs) = (prefix pat (c # cs) \<or> py_in pat cs)"

text \<open>\<open>str(n)\<close> for an \<open>int\<close>, as an f-string formats it: decimal, with a sign when negative.\<close>

definition digit_char :: "nat \<Rightarrow> char" where
  "digit_char d = ''0123456789'' ! (d mod 10)"

function str_nat :: "nat \<Rightarrow> string" where
  "str_nat n = (if n < 10 then [digit_char n] else str_nat (n div 10) @ [digit_char (n mod 10)])"
  by pat_completeness auto
termination
  by (relation "measure id") auto

definition str_int :: "int \<Rightarrow> string" where
  "str_int i = (if i < 0 then CHR ''-'' # str_nat (nat (- i)) else str_nat (nat i))"

section \<open>Data model\<close>

text \<open>
  A Match is the dictionary returned by the vector index. A field is \<open>None\<close> here when the
  key is absent from the dictionary, which is what the code's \<open>.get(key, default)\<close> calls
  provide for. Scores are Python floats; they are modelled as reals (finite scores, compared
  as numbers).
\<close>

record metadata =
  md_name :: "string option"
  md_type :: "string option"
  md_tags :: "string list option"
  md_city :: "string option"

record pmatch =
  m_id :: "string option"
  m_score :: "real option"
  m_metadata :: "metadata option"

text \<open>
  A GraphFact is the dictionary built by \<open>fetch_graph_context\<close>: every key is present, and a
  field is \<open>None\<close> here when its value is Python's \<open>None\<close> (a null in the graph database).
  \<open>target_desc\<close> is always a string.
\<close>

record graph_fact =
  source :: "string option"
  rel :: "string option"
  target_id :: "string option"
  target_name :: "string option"
  target_desc :: string
  labels :: "string list option"

record turn =
  role :: string
  content :: string

text \<open>
  How Python prints the values that are not strings: \<open>format(x, '.2f')\<close> and \<open>str(x)\<close> for a
  float, and \<open>repr(s)\<close> for a string (used by \<open>str\<close> of a dictionary). Floating-point printing
  is outside the model, so the three functions are parameters of the functions that print.
\<close>

record py_format =
  fmt_2f :: "real \<Rightarrow> string"
  str_float :: "real \<Rightarrow> string"
  repr_str :: "string \<Rightarrow> string"

definition NL :: string where
  "NL = [CHR 0x0A]"

text \<open>\<open>str(v)\<close> for a value that is a string or \<open>None\<close>.\<close>

fun str_opt :: "string option \<Rightarrow> string" where
  "str_opt None = ''None''"
| "str_opt (Some s) = s"

text \<open>\<open>d.get(key, default)\<close> for an absent key.\<close>

fun get_or :: "'a option \<Rightarrow> 'a \<Rightarrow> 'a" where
  "get_or None d = d"
| "get_or (Some v) d = v"

definition empty_metadata :: metadata where
  "empty_metadata = \<lparr>md_name = None, md_type = None, md_tags = None, md_city = None\<rparr>"

section \<open>Context merger and prompt builder (prompting.py)\<close>

definition score_key :: "pmatch \<Rightarrow> real" where
  "score_key x = get_or (m_score x) 0"

text \<open>
  \<open>sorted(xs, key=..., reverse=True)\<close>: Python reverses the list, sorts it stably in
  ascending order and reverses the result, so elements with equal keys keep their order.
\<close>

definition sorted_reverse :: "('a \<Rightarrow> real) \<Rightarrow> 'a list \<Rightarrow> 'a list" where
  "sorted_reverse key xs = rev (sort_key key (rev xs))"

definition vec_snippet :: "py_format \<Rightarrow> pmatch \<Rightarrow> string" where
  "vec_snippet F m =
     (let meta = get_or (m_metadata m) empty_metadata;
          score = get_or (m_score m) 0
      in ''- '' @ get_or (md_name meta) ''Unknown'' @ '': '' @ get_or (md_type meta) ''Unknown''
         @ '' (tags: '' @ join '', '' (get_or (md_tags meta) []) @ '', score: ''
         @ fmt_2f F score @ '')'')"

definition graph_snippet :: "graph_fact \<Rightarrow> string" where
  "graph_snippet f = ''- '' @ str_opt (target_name f) @ '': '' @ take 120 (target_desc f) @ ''...''"

text \<open>The \<open>for\<close> loop of \<open>search_summary\<close> appends one snippet per selected match.\<close>

definition vec_snippets :: "py_format \<Rightarrow> pmatch list \<Rightarrow> string list" where
  "vec_snippets F pinecone_matches =
     foldl (\<lambda>acc m. acc @ [vec_snippet F m]) [] (take 5 (sorted_reverse score_key pinecone_matches))"

definition graph_snippets :: "graph_fact list \<Rightarrow> string list" where
  "graph_snippets graph_facts = map graph_snippet (take 7 graph_facts)"

definition search_summary :: "py_format \<Rightarrow> pmatch list \<Rightarrow> graph_fact list \<Rightarrow> string" where
  "search_summary F pinecone_matches graph_facts =
     ''Prioritized Vector matches:'' @ NL @ join NL (vec_snippets F pinecone_matches)
     @ NL @ NL @ ''Prioritized Graph facts:'' @ NL @ join NL (graph_snippets graph_facts)"

record template =
  t_system :: string
  t_suffix :: string

definition TEMPLATES :: "int \<Rightarrow> (string \<times> template) list" where
  "TEMPLATES trip_length =
     [(''concise'',
        \<lparr>t_system = ''You are a helpful, concise travel assistant.'',
         t_suffix = ''Provide exactly '' @ str_int trip_length
           @ ''-day itineraries with timings and local tips. Be concise and factual.''\<rparr>),
      (''chain_of_thought'',
        \<lparr>t_system = ''You are a helpful travel assistant who explains reasoning clearly.'',
         t_suffix = ''Provide exactly '' @ str_int trip_length
           @ ''-day itineraries with timings and local tips. After the itinerary, include a short ''
           @ [CHR 0x27] @ ''Reasoning'' @ [CHR 0x27]
           @ '' section that lists the key assumptions and steps used to produce the plan (3-5 bullet points). Keep the reasoning concise and factual.''\<rparr>)]"

text \<open>\<open>str(preferences)\<close>: the dictionary's items in insertion order.\<close>

definition str_dict :: "py_format \<Rightarrow> (string \<times> string) list \<Rightarrow> string" where
  "str_dict F d = ''{'' @ join '', '' (map (\<lambda>(k, v). repr_str F k @ '': '' @ repr_str F v) d) @ ''}''"

definition vec_context_line :: "py_format \<Rightarrow> pmatch \<Rightarrow> string" where
  "vec_context_line F m =
     (let meta = get_or (m_metadata m) empty_metadata
      in ''- id: '' @ str_opt (m_id m) @ '', name: '' @ get_or (md_name meta) []
         @ '', type: '' @ get_or (md_type meta) [] @ '', score: ''
         @ (case m_score m of None \<Rightarrow> ''None'' | Some x \<Rightarrow> str_float F x))"

definition graph_context_line :: "graph_fact \<Rightarrow> string" where
  "graph_context_line f =
     ''- ('' @ str_opt (source f) @ '') -['' @ str_opt (rel f) @ '']-> ('' @ str_opt (target_id f)
     @ '') '' @ str_opt (target_name f) @ '': '' @ target_desc f"

text \<open>
  \<open>preferences\<close> is \<open>None\<close> or a dictionary from strings to strings, kept as the list of its
  items in insertion order (keys distinct).
\<close>

definition build_prompt ::
  "py_format \<Rightarrow> string \<Rightarrow> pmatch list \<Rightarrow> graph_fact list \<Rightarrow> (string \<times> string) list option
     \<Rightarrow> turn list" where
  "build_prompt F user_query pinecone_matches graph_facts preferences0 =
     (let preferences = (case preferences0 of None \<Rightarrow> [] | Some d \<Rightarrow> d);
          trip_length = (if CHR ''4'' \<in> set user_query then 4 else 3);
          template_name =
            (case map_of preferences ''template'' of
               None \<Rightarrow> ''concise''
             | Some v \<Rightarrow> if v = [] then ''concise'' else v);
          template =
            (case map_of (TEMPLATES trip_length) template_name of
               Some t \<Rightarrow> t
             | None \<Rightarrow> snd (hd (TEMPLATES trip_length)));
          system = t_system template @ '' '' @ t_suffix template;
          vec_context = foldl (\<lambda>acc m. acc @ [vec_context_line F m]) [] (take 10 pinecone_matches);
          graph_context = map graph_context_line (take 15 graph_facts);
          summary = search_summary F pinecone_matches graph_facts;
          user_content =
            ''User query: '' @ user_query @ NL @ NL
            @ ''Preferences: '' @ str_dict F preferences @ NL @ NL
            @ ''Summary:'' @ NL @ summary @ NL @ NL
            @ ''Top semantic matches:'' @ NL @ join NL vec_context @ NL @ NL
            @ ''Graph facts:'' @ NL @ join NL graph_context @ NL @ NL
            @ ''Please produce the requested output.''
      in [\<lparr>role = ''system'', content = system\<rparr>, \<lparr>role = ''user'', content = user_content\<rparr>])"

section \<open>Regular expressions, as Python's backtracking matcher runs them\<close>

text \<open>
  A pattern is written in continuation style: a matcher takes the text at the current position
  and the rest of the pattern as a continuation, and returns the first overall success in the
  order in which Python's \<open>re\<close> module tries the alternatives. \<open>backtrack lo n k\<close> tries the
  repetition counts \<open>n, n - 1, ..., lo\<close> in that order, which is how a greedy \<open>*\<close> (\<open>lo = 0\<close>),
  \<open>+\<close> (\<open>lo = 1\<close>) or \<open>{2,}\<close> (\<open>lo = 2\<close>) over a one-character class gives characters back.
\<close>

fun backtrack :: "nat \<Rightarrow> nat \<Rightarrow> (nat \<Rightarrow> 'a option) \<Rightarrow> 'a option" where
  "backtrack lo 0 k = (if lo = 0 then k 0 else None)"
| "backtrack lo (Suc n) k =
     (if Suc n < lo then None
      else (case k (Suc n) of Some r \<Rightarrow> Some r | None \<Rightarrow> backtrack lo n k))"

text \<open>A greedy repetition of the character class \<open>P\<close>; the continuation gets the text matched
  by the repetition (for a capturing group) and the text after it.\<close>

definition many ::
  "nat \<Rightarrow> (char \<Rightarrow> bool) \<Rightarrow> string \<Rightarrow> (string \<Rightarrow> string \<Rightarrow> 'a option) \<Rightarrow> 'a option" where
  "many lo P s k = backtrack lo (length (takeWhile P s)) (\<lambda>n. k (take n s) (drop n s))"

text \<open>One character of a class.\<close>

definition one :: "(char \<Rightarrow> bool) \<Rightarrow> string \<Rightarrow> (string \<Rightarrow> 'a option) \<Rightarrow> 'a option" where
  "one P s k = (case s of [] \<Rightarrow> None | c # cs \<Rightarrow> if P c then k cs else None)"

text \<open>
  A literal. The patterns are written in lower case; under \<open>re.IGNORECASE\<close> (\<open>ic\<close>) a
  character of the text matches a letter of the pattern when its lower-case form does. On
  code points below 256 only the ASCII letters have a case that the patterns' letters match.
\<close>

definition ascii_lower :: "char \<Rightarrow> char" where
  "ascii_lower c =
     (case map_of (zip ''ABCDEFGHIJKLMNOPQRSTUVWXYZ'' ''abcdefghijklmnopqrstuvwxyz'') c of
        Some l \<Rightarrow> l
      | None \<Rightarrow> c)"

fun strip_prefix :: "bool \<Rightarrow> string \<Rightarrow> string \<Rightarrow> string option" where
  "strip_prefix ic [] s = Some s"
| "strip_prefix ic (p # ps) [] = None"
| "strip_prefix ic (p # ps) (c # cs) =
     (if c = p \<or> (ic \<and> ascii_lower c = p) then strip_prefix ic ps cs else None)"

definition lit :: "bool \<Rightarrow> string \<Rightarrow> string \<Rightarrow> (string \<Rightarrow> 'a option) \<Rightarrow> 'a option" where
  "lit ic p s k = (case strip_prefix ic p s of Some r \<Rightarrow> k r | None \<Rightarrow> None)"

text \<open>\<open>a|b\<close> tries \<open>a\<close> with the rest of the pattern first; \<open>a?\<close> tries \<open>a\<close> before skipping it.\<close>

definition alt ::
  "(string \<Rightarrow> (string \<Rightarrow> 'a option) \<Rightarrow> 'a option) \<Rightarrow> (string \<Rightarrow> (string \<Rightarrow> 'a option) \<Rightarrow> 'a option)
     \<Rightarrow> string \<Rightarrow> (string \<Rightarrow> 'a option) \<Rightarrow> 'a option" where
  "alt a b s k = (case a s k of Some r \<Rightarrow> Some r | None \<Rightarrow> b s k)"

definition opt ::
  "(string \<Rightarrow> (string \<Rightarrow> 'a option) \<Rightarrow> 'a option) \<Rightarrow> string \<Rightarrow> (string \<Rightarrow> 'a option) \<Rightarrow> 'a option" where
  "opt a s k = (case a s k of Some r \<Rightarrow> Some r | None \<Rightarrow> k s)"

text \<open>
  \<open>re.sub(pattern, repl, s)\<close>: the text is scanned from the left; where the pattern matches,
  the replacement is written and the scan goes on after the match, elsewhere the character
  is copied. A matcher returns its groups and the text after the match; \<open>repl\<close> gets the groups
  and the matched text (\<open>group(0)\<close>). None of the patterns below matches the empty string
  (lemmas \<open>*_consumes\<close>), so the test on the length of the rest always succeeds.
\<close>

function re_sub :: "(string \<Rightarrow> ('g \<times> string) option) \<Rightarrow> ('g \<Rightarrow> string \<Rightarrow> string) \<Rightarrow> string \<Rightarrow> string" where
  "re_sub pat repl [] = []"
| "re_sub pat repl (c # cs) =
     (case pat (c # cs) of
        None \<Rightarrow> c # re_sub pat repl cs
      | Some (g, rest) \<Rightarrow>
          if length rest \<le> length cs
          then repl g (take (length (c # cs) - length rest) (c # cs)) @ re_sub pat repl rest
          else c # re_sub pat repl cs)"
  by pat_completeness auto
termination
  by (relation "measure (\<lambda>(pat, repl, s). length s)") auto

text \<open>\<open>re.search\<close>: the first position, from the left, where the pattern matches.\<close>

fun re_search :: "(string \<Rightarrow> 'a option) \<Rightarrow> string \<Rightarrow> 'a option" where
  "re_search pat [] = pat []"
| "re_search pat (c # cs) = (case pat (c # cs) of Some r \<Rightarrow> Some r | None \<Rightarrow> re_search pat cs)"

section \<open>Citation expansion (prompting.py)\<close>

definition truthy :: "string option \<Rightarrow> bool" where
  "truthy v = (case v of None \<Rightarrow> False | Some s \<Rightarrow> s \<noteq> [])"

text \<open>The dictionary comprehensions: a later entry with the same key replaces an earlier one.\<close>

definition meta_by_id :: "pmatch list \<Rightarrow> (string \<rightharpoonup> metadata)" where
  "meta_by_id matches =
     foldl (\<lambda>d m. case m_id m of
                     None \<Rightarrow> d
                   | Some i \<Rightarrow> if i \<noteq> [] then d(i \<mapsto> get_or (m_metadata m) empty_metadata) else d)
           Map.empty matches"

definition facts_by_id :: "graph_fact list \<Rightarrow> (string \<rightharpoonup> graph_fact)" where
  "facts_by_id graph_facts =
     foldl (\<lambda>d f. case target_id f of
                     None \<Rightarrow> d
                   | Some i \<Rightarrow> if i \<noteq> [] then d(i \<mapsto> f) else d)
           Map.empty graph_facts"

text \<open>The pattern \<open>\[\s*([^\]]+)\s*\]\<close>; the result is group 1 and the text after the match.\<close>

definition citation_pat :: "string \<Rightarrow> (string \<times> string) option" where
  "citation_pat s =
     lit False ''['' s (\<lambda>s1.
     many 0 is_space s1 (\<lambda>_ s2.
     many 1 (\<lambda>c. c \<noteq> CHR '']'') s2 (\<lambda>g s3.
     many 0 is_space s3 (\<lambda>_ s4.
     lit False '']'' s4 (\<lambda>s5. Some (g, s5))))))"

definition is_id_char :: "char \<Rightarrow> bool" where
  "is_id_char c =
     (c \<in> set ''ABCDEFGHIJKLMNOPQRSTUVWXYZabcdefghijklmnopqrstuvwxyz0123456789_-'')"

text \<open>
  The pattern \<open>(?:(?:node[_ ]?id|nodeid|id)\s*:\s*)?(?P<id>[A-Za-z0-9_-]+)\<close> under
  \<open>re.IGNORECASE\<close>; the result is the group \<open>id\<close>.
\<close>

definition id_pat :: "string \<Rightarrow> string option" where
  "id_pat s =
     opt (\<lambda>s k.
            alt (\<lambda>s k. lit True ''node'' s (\<lambda>s1.
                         opt (one (\<lambda>c. c = CHR ''_'' \<or> c = CHR '' '')) s1 (\<lambda>s2.
                         lit True ''id'' s2 k)))
           (alt (lit True ''nodeid'') (lit True ''id'')) s (\<lambda>s1.
            many 0 is_space s1 (\<lambda>_ s2.
            lit True '':'' s2 (\<lambda>s3.
            many 0 is_space s3 (\<lambda>_ s4. k s4))))) s (\<lambda>s5.
     many 1 is_id_char s5 (\<lambda>g _. Some g))"

text \<open>\<open>str.lower()\<close> on code points below 256.\<close>

definition py_lower_char :: "char \<Rightarrow> char" where
  "py_lower_char c =
     (case map_of (zip
        [CHR 0x41, CHR 0x42, CHR 0x43, CHR 0x44, CHR 0x45, CHR 0x46, CHR 0x47, CHR 0x48, CHR 0x49,
        CHR 0x4A, CHR 0x4B, CHR 0x4C, CHR 0x4D, CHR 0x4E, CHR 0x4F, CHR 0x50, CHR 0x51, CHR 0x52,
        CHR 0x53, CHR 0x54, CHR 0x55, CHR 0x56, CHR 0x57, CHR 0x58, CHR 0x59, CHR 0x5A, CHR 0xC0,
        CHR 0xC1, CHR 0xC2, CHR 0xC3, CHR 0xC4, CHR 0xC5, CHR 0xC6, CHR 0xC7, CHR 0xC8, CHR 0xC9,
        CHR 0xCA, CHR 0xCB, CHR 0xCC, CHR 0xCD, CHR 0xCE, CHR 0xCF, CHR 0xD0, CHR 0xD1, CHR 0xD2,
        CHR 0xD3, CHR 0xD4, CHR 0xD5, CHR 0xD6, CHR 0xD8, CHR 0xD9, CHR 0xDA, CHR 0xDB, CHR 0xDC,
        CHR 0xDD, CHR 0xDE]
        [CHR 0x61, CHR 0x62, CHR 0x63, CHR 0x64, CHR 0x65, CHR 0x66, CHR 0x67, CHR 0x68, CHR 0x69,
        CHR 0x6A, CHR 0x6B, CHR 0x6C, CHR 0x6D, CHR 0x6E, CHR 0x6F, CHR 0x70, CHR 0x71, CHR 0x72,
        CHR 0x73, CHR 0x74, CHR 0x75, CHR 0x76, CHR 0x77, CHR 0x78, CHR 0x79, CHR 0x7A, CHR 0xE0,
        CHR 0xE1, CHR 0xE2, CHR 0xE3, CHR 0xE4, CHR 0xE5, CHR 0xE6, CHR 0xE7, CHR 0xE8, CHR 0xE9,
        CHR 0xEA, CHR 0xEB, CHR 0xEC, CHR 0xED, CHR 0xEE, CHR 0xEF, CHR 0xF0, CHR 0xF1, CHR 0xF2,
        CHR 0xF3, CHR 0xF4, CHR 0xF5, CHR 0xF6, CHR 0xF8, CHR 0xF9, CHR 0xFA, CHR 0xFB, CHR 0xFC,
        CHR 0xFD, CHR 0xFE]) c of
        Some l \<Rightarrow> l
      | None \<Rightarrow> c)"

definition KEYWORDS :: "string list" where
  "KEYWORDS = [''romantic'', ''beach'', ''culture'', ''heritage'', ''food'', ''nature'', ''mountain'']"

text \<open>The identifier looked up for a placeholder with group 1 \<open>g\<close>.\<close>

definition placeholder_id :: "string \<Rightarrow> string" where
  "placeholder_id g =
     (let raw = strip g
      in case re_search id_pat raw of Some i \<Rightarrow> i | None \<Rightarrow> raw)"

definition match_citation :: "metadata \<Rightarrow> string" where
  "match_citation meta =
     (let typ = (case md_type meta of None \<Rightarrow> ''Entity'' | Some t \<Rightarrow> if t = [] then ''Entity'' else t);
          tags = get_or (md_tags meta) []
      in if tags \<noteq> [] then typ @ '' ('' @ join '', '' tags @ '')'' else typ)"

definition fact_citation :: "graph_fact \<Rightarrow> string" where
  "fact_citation f =
     (let typ = (case labels f of
                   Some (l # _) \<Rightarrow> if l = [] then ''Entity'' else l
                 | _ \<Rightarrow> ''Entity'');
          desc = target_desc f;
          found = filter (\<lambda>kw. py_in kw (map py_lower_char desc)) KEYWORDS
      in if found \<noteq> [] then typ @ '' ('' @ join '', '' found @ '')'' else typ)"

text \<open>The local function \<open>repl\<close>: \<open>g\<close> is \<open>match.group(1)\<close> and \<open>whole\<close> is \<open>match.group(0)\<close>.\<close>

definition repl :: "(string \<rightharpoonup> metadata) \<Rightarrow> (string \<rightharpoonup> graph_fact) \<Rightarrow> string \<Rightarrow> string \<Rightarrow> string" where
  "repl metas facts g whole =
     (let nodeid = placeholder_id g
      in case metas nodeid of
           Some meta \<Rightarrow> match_citation meta
         | None \<Rightarrow> (case facts nodeid of
                      Some f \<Rightarrow> fact_citation f
                    | None \<Rightarrow> whole))"

text \<open>\<open>matches\<close> and \<open>graph_facts\<close> are \<open>None\<close> or a list; \<open>None\<close> and the empty list are both
  replaced by the empty list.\<close>

definition expand_citations ::
  "string \<Rightarrow> pmatch list option \<Rightarrow> graph_fact list option \<Rightarrow> string" where
  "expand_citations response matches0 graph_facts0 =
     (let matches = (case matches0 of None \<Rightarrow> [] | Some ms \<Rightarrow> ms);
          graph_facts = (case graph_facts0 of None \<Rightarrow> [] | Some fs \<Rightarrow> fs)
      in re_sub citation_pat (repl (meta_by_id matches) (facts_by_id graph_facts)) response)"

section \<open>Answer sanitizer (prompting.py)\<close>

text \<open>\<open>score:\s*\d+\.\d+\<close> under \<open>re.IGNORECASE\<close>.\<close>

definition score_pat :: "string \<Rightarrow> (unit \<times> string) option" where
  "score_pat s =
     lit True ''score:'' s (\<lambda>s1.
     many 0 is_space s1 (\<lambda>_ s2.
     many 1 is_digit s2 (\<lambda>_ s3.
     lit True ''.'' s3 (\<lambda>s4.
     many 1 is_digit s4 (\<lambda>_ s5. Some ((), s5))))))"

text \<open>\<open>\[\s*node_id\s*:\s*[^\]]+\]\<close> and \<open>\(\s*node_id\s*:\s*[^\)]+\)\<close> under \<open>re.IGNORECASE\<close>,
  with the opening and the closing bracket as parameters.\<close>

definition node_id_pat :: "char \<Rightarrow> char \<Rightarrow> string \<Rightarrow> (unit \<times> string) option" where
  "node_id_pat lb rb s =
     lit True [lb] s (\<lambda>s1.
     many 0 is_space s1 (\<lambda>_ s2.
     lit True ''node_id'' s2 (\<lambda>s3.
     many 0 is_space s3 (\<lambda>_ s4.
     lit True '':'' s4 (\<lambda>s5.
     many 0 is_space s5 (\<lambda>_ s6.
     many 1 (\<lambda>c. c \<noteq> rb) s6 (\<lambda>_ s7.
     lit True [rb] s7 (\<lambda>s8. Some ((), s8)))))))))"

text \<open>\<open> {2,}\<close>: two or more spaces.\<close>

definition spaces_pat :: "string \<Rightarrow> (unit \<times> string) option" where
  "spaces_pat s = many 2 (\<lambda>c. c = CHR '' '') s (\<lambda>_ s1. Some ((), s1))"

text \<open>\<open>re.match(r"^\s*(Note:|Validation:)", ln)\<close>: whether the line matches.\<close>

definition note_pat :: "string \<Rightarrow> bool" where
  "note_pat line =
     (many 0 is_space line (\<lambda>_ s1.
        alt (lit False ''Note:'') (lit False ''Validation:'') s1 (\<lambda>_. Some ())) \<noteq> None)"

text \<open>
  \<open>str.splitlines()\<close>: the text is cut at every line boundary, \<open>\r\n\<close> counting as one; the
  boundaries are not kept, and a boundary at the very end does not open a last empty line.
\<close>

function splitlines :: "string \<Rightarrow> string list" where
  "splitlines s =
     (if s = [] then []
      else takeWhile (\<lambda>c. \<not> is_linebreak c) s #
           (case dropWhile (\<lambda>c. \<not> is_linebreak c) s of
              [] \<Rightarrow> []
            | b # r \<Rightarrow>
                (case r of
                   [] \<Rightarrow> []
                 | n # r' \<Rightarrow> if b = CHR 0x0D \<and> n = CHR 0x0A then splitlines r' else splitlines r)))"
  by pat_completeness auto
termination
proof (relation "measure length", goal_cases)
  case 1
  show ?case by simp
next
  case (2 s b r n r')
  have "length (dropWhile (\<lambda>c. \<not> is_linebreak c) s) \<le> length s"
    by (rule length_dropWhile_le)
  with 2 show ?case by simp
next
  case (3 s b r n r')
  have "length (dropWhile (\<lambda>c. \<not> is_linebreak c) s) \<le> length s"
    by (rule length_dropWhile_le)
  with 3 show ?case by simp
qed

definition sanitize_answer :: "string \<Rightarrow> string" where
  "sanitize_answer response0 =
     (let response1 = re_sub score_pat (\<lambda>_ _. []) response0;
          response2 = re_sub (node_id_pat (CHR ''['') (CHR '']'')) (\<lambda>_ _. []) response1;
          response3 = re_sub (node_id_pat (CHR ''('') (CHR '')'')) (\<lambda>_ _. []) response2;
          response4 = re_sub spaces_pat (\<lambda>_ _. '' '') response3;
          lines = filter (\<lambda>line. \<not> note_pat line) (splitlines response4)
      in strip (join NL lines))"

section \<open>Response validation (prompting.py)\<close>

definition validate_response :: "string \<Rightarrow> int \<Rightarrow> string" where
  "validate_response response trip_length =
     (if \<not> py_in (''Day '' @ str_int trip_length) response
      then ''Response incomplete: Missing Day '' @ str_int trip_length @ ''.''
      else ''Valid'')"

section \<open>Graph expansion (graph.py)\<close>

text \<open>
  One row of the query's result, with the columns of its \<open>RETURN\<close> clause; a column is
  \<open>None\<close> when the database returns a null.
\<close>

record graph_record =
  r_rel :: "string option"
  r_labels :: "string list option"
  r_id :: "string option"
  r_name :: "string option"
  r_type :: "string option"
  r_description :: "string option"
  r_rel2 :: "string option"
  r_labels2 :: "string list option"
  r_id2 :: "string option"
  r_name2 :: "string option"
  r_type2 :: "string option"
  r_description2 :: "string option"

datatype error = KeyError string | CollaboratorError string

text \<open>\<open>(d or "")[:400]\<close>.\<close>

definition desc400 :: "string option \<Rightarrow> string" where
  "desc400 d = take 400 (get_or d [])"

definition one_hop :: "graph_record \<Rightarrow> graph_fact" where
  "one_hop r = \<lparr>source = None, rel = r_rel r, target_id = r_id r, target_name = r_name r,
     target_desc = desc400 (r_description r), labels = r_labels r\<rparr>"

definition two_hop :: "graph_record \<Rightarrow> graph_fact" where
  "two_hop r = \<lparr>source = r_id r, rel = r_rel2 r, target_id = r_id2 r, target_name = r_name2 r,
     target_desc = desc400 (r_description2 r), labels = r_labels2 r\<rparr>"

text \<open>The body of the loop over the rows: the list of facts so far, and one row.\<close>

definition add_record :: "graph_fact list \<Rightarrow> graph_record \<Rightarrow> graph_fact list" where
  "add_record facts r =
     (let facts1 = facts @ [one_hop r]
      in if truthy (r_rel2 r) then facts1 @ [two_hop r] else facts1)"

text \<open>
  The graph database is a parameter: \<open>run node_ids\<close> is the list of rows that the query
  returns for these node ids, or the error that the driver raises.
\<close>

definition fetch_graph_context ::
  "(string list \<Rightarrow> error + graph_record list) \<Rightarrow> string list \<Rightarrow> error + graph_fact list" where
  "fetch_graph_context run node_ids =
     (case run node_ids of
        Inl e \<Rightarrow> Inl e
      | Inr recs \<Rightarrow> Inr (take 50 (foldl add_record [] recs)))"

section \<open>Embedding cache key (embed.py)\<close>

text \<open>\<open>key.encode()\<close>: UTF-8, for code points below 256; the bytes are natural numbers.\<close>

definition utf8_char :: "char \<Rightarrow> nat list" where
  "utf8_char c =
     (let n = (of_char c :: nat)
      in if n < 128 then [n] else [192 + n div 64, 128 + n mod 64])"

definition encode :: "string \<Rightarrow> nat list" where
  "encode s = concat (map utf8_char s)"

text \<open>
  \<open>hashlib.sha256(...).hexdigest()\<close>: SHA-256 as the standard (FIPS 180-4) defines it, on 32-bit
  words kept as natural numbers below \<open>2 ^ 32\<close>. The round constants are the first 32 bits of
  the fractional parts of the cube roots of the first 64 primes, and the initial hash value
  those of the square roots of the first 8 primes, written in decimal.
\<close>

definition K256 :: "nat list" where
  "K256 =
     [1116352408, 1899447441, 3049323471, 3921009573, 961987163, 1508970993, 2453635748,
      2870763221, 3624381080, 310598401, 607225278, 1426881987, 1925078388, 2162078206,
      2614888103, 3248222580, 3835390401, 4022224774, 264347078, 604807628, 770255983,
      1249150122, 1555081692, 1996064986, 2554220882, 2821834349, 2952996808, 3210313671,
      3336571891, 3584528711, 113926993, 338241895, 666307205, 773529912, 1294757372,
      1396182291, 1695183700, 1986661051, 2177026350, 2456956037, 2730485921, 2820302411,
      3259730800, 3345764771, 3516065817, 3600352804, 4094571909, 275423344, 430227734,
      506948616, 659060556, 883997877, 958139571, 1322822218, 1537002063, 1747873779,
      1955562222, 2024104815, 2227730452, 2361852424, 2428436474, 2756734187, 3204031479,
      3329325298]"

definition H256 :: "nat list" where
  "H256 = [1779033703, 3144134277, 1013904242, 2773480762,
           1359893119, 2600822924, 528734635, 1541459225]"

definition add32 :: "nat \<Rightarrow> nat \<Rightarrow> nat" where
  "add32 x y = (x + y) mod 4294967296"

definition rotr :: "nat \<Rightarrow> nat \<Rightarrow> nat" where
  "rotr n x = x div 2 ^ n + (x mod 2 ^ n) * 2 ^ (32 - n)"

definition ssig0 :: "nat \<Rightarrow> nat" where
  "ssig0 x = rotr 7 x XOR rotr 18 x XOR x div 2 ^ 3"

definition ssig1 :: "nat \<Rightarrow> nat" where
  "ssig1 x = rotr 17 x XOR rotr 19 x XOR x div 2 ^ 10"

definition bsig0 :: "nat \<Rightarrow> nat" where
  "bsig0 x = rotr 2 x XOR rotr 13 x XOR rotr 22 x"

definition bsig1 :: "nat \<Rightarrow> nat" where
  "bsig1 x = rotr 6 x XOR rotr 11 x XOR rotr 25 x"

definition ch :: "nat \<Rightarrow> nat \<Rightarrow> nat \<Rightarrow> nat" where
  "ch x y z = (x AND y) XOR ((4294967295 - x) AND z)"

definition maj :: "nat \<Rightarrow> nat \<Rightarrow> nat \<Rightarrow> nat" where
  "maj x y z = (x AND y) XOR (x AND z) XOR (y AND z)"

text \<open>Padding: a one bit, zeros up to 56 bytes modulo 64, and the length in bits on 8 bytes.\<close>

definition sha_pad :: "nat list \<Rightarrow> nat list" where
  "sha_pad m = m @ [128] @ replicate ((119 - length m mod 64) mod 64) 0
     @ map (\<lambda>i. (8 * length m) div 256 ^ i mod 256) [7, 6, 5, 4, 3, 2, 1, 0]"

fun be_words :: "nat list \<Rightarrow> nat list" where
  "be_words (a # b # c # d # r) = (((a * 256 + b) * 256 + c) * 256 + d) # be_words r"
| "be_words _ = []"

fun chunk16 :: "nat list \<Rightarrow> nat list list" where
  "chunk16 (w0 # w1 # w2 # w3 # w4 # w5 # w6 # w7 # w8 # w9 # w10 # w11 # w12 # w13 # w14 # w15 # r) =
     [w0, w1, w2, w3, w4, w5, w6, w7, w8, w9, w10, w11, w12, w13, w14, w15] # chunk16 r"
| "chunk16 _ = []"

definition new_state ::
  "nat \<Rightarrow> nat \<Rightarrow> nat \<Rightarrow> nat \<Rightarrow> nat \<Rightarrow> nat \<Rightarrow> nat \<Rightarrow> nat \<Rightarrow> nat \<Rightarrow> nat list" where
  "new_state a b c d e f g t1 t2 = [add32 t1 t2, a, b, c, add32 d t1, e, f, g]"

fun round256 :: "nat list \<Rightarrow> nat \<Rightarrow> nat \<Rightarrow> nat list" where
  "round256 [a, b, c, d, e, f, g, h] k w =
     new_state a b c d e f g
       (add32 (add32 (add32 (add32 h (bsig1 e)) (ch e f g)) k) w)
       (add32 (bsig0 a) (maj a b c))"
| "round256 st k w = st"

text \<open>The message schedule is kept as a window of the last 16 words.\<close>

definition next_w :: "nat list \<Rightarrow> nat" where
  "next_w w = add32 (add32 (add32 (ssig1 (w ! 14)) (w ! 9)) (ssig0 (w ! 1))) (w ! 0)"

fun rounds :: "nat list \<Rightarrow> nat list \<Rightarrow> nat list \<Rightarrow> nat list" where
  "rounds [] w st = st"
| "rounds (k # ks) w st = rounds ks (tl w @ [next_w w]) (round256 st k (hd w))"

definition compress :: "nat list \<Rightarrow> nat list \<Rightarrow> nat list" where
  "compress hs block = map2 add32 hs (rounds K256 block hs)"

definition hex8 :: "nat \<Rightarrow> string" where
  "hex8 w = map (\<lambda>i. ''0123456789abcdef'' ! (w div 16 ^ i mod 16)) [7, 6, 5, 4, 3, 2, 1, 0]"

definition sha256_hexdigest :: "nat list \<Rightarrow> string" where
  "sha256_hexdigest m = concat (map hex8 (foldl compress H256 (chunk16 (be_words (sha_pad m)))))"

definition get_text_hash :: "string \<Rightarrow> string option \<Rightarrow> string" where
  "get_text_hash text0 model =
     (let key = (case model of None \<Rightarrow> text0 | Some m \<Rightarrow> m @ '':'' @ text0)
      in sha256_hexdigest (encode key))"

section \<open>Chat loop (cli.py)\<close>

text \<open>
  One pass of the loop of \<open>interactive_chat\<close>, for a query that is not empty, \<open>exit\<close> or
  \<open>quit\<close>. The collaborators are parameters: \<open>query_pinecone\<close> (the vector search), \<open>run\<close>
  (the graph database) and \<open>llm\<close>, the completion endpoint behind \<open>call_chat\<close>. A completion
  call is the pair of its messages and its \<open>max_tokens\<close>, and \<open>llm\<close> answers the last call of
  the list of the calls made so far, with a text or with the error it raises. The result is
  the list of the completion calls made and the text printed, or the error that ends the pass.
\<close>

type_synonym call = "turn list \<times> nat"

definition followup :: "turn list" where
  "followup = [\<lparr>role = ''user'', content = ''The previous response was incomplete. Please complete the missing day(s) and ensure all days are covered.''\<rparr>]"

definition chat_turn ::
  "py_format \<Rightarrow> (string \<Rightarrow> error + pmatch list) \<Rightarrow> (string list \<Rightarrow> error + graph_record list)
     \<Rightarrow> (call list \<Rightarrow> error + string) \<Rightarrow> (string \<times> string) list \<Rightarrow> string
     \<Rightarrow> call list \<times> (error + string)" where
  "chat_turn F query_pinecone run llm preferences query =
     (case query_pinecone query of
        Inl e \<Rightarrow> ([], Inl e)
      | Inr matches \<Rightarrow>
          if list_ex (\<lambda>m. m_id m = None) matches then ([], Inl (KeyError ''id''))
          else
            (let match_ids = map (\<lambda>m. get_or (m_id m) []) matches;
                 graph_facts = (case fetch_graph_context run match_ids of
                                  Inl e \<Rightarrow> []
                                | Inr fs \<Rightarrow> fs);
                 prompt = build_prompt F query matches graph_facts (Some preferences);
                 call1 = (prompt, 1100)
             in case llm [call1] of
                  Inl e \<Rightarrow> ([call1], Inl e)
                | Inr answer \<Rightarrow>
                    (let validation =
                           validate_response answer (if CHR ''4'' \<in> set query then 4 else 3)
                     in if validation \<noteq> ''Valid''
                        then
                          (let prompt_extended = prompt @ followup;
                               call2 = (prompt_extended, 1200)
                           in case llm [call1, call2] of
                                Inl e \<Rightarrow> ([call1, call2], Inl e)
                              | Inr answer2 \<Rightarrow>
                                  ([call1, call2],
                                   Inr (sanitize_answer
                                     (expand_citations answer2 (Some matches) (Some graph_facts)))))
                        else
                          ([call1],
                           Inr (sanitize_answer
                             (expand_citations answer (Some matches) (Some graph_facts)))))))"

section \<open>Notions used in the statements and proofs\<close>

definition hop_group :: "graph_record \<Rightarrow> graph_fact list" where
  "hop_group r = one_hop r # (if truthy (r_rel2 r) then [two_hop r] else [])"

text \<open>A fact with a source stands right after a fact without one, whose target it names.\<close>

definition after_its_one_hop :: "graph_fact list \<Rightarrow> bool" where
  "after_its_one_hop fs \<longleftrightarrow>
     (\<forall>i < length fs. source (fs ! i) \<noteq> None \<longrightarrow>
        0 < i \<and> source (fs ! (i - 1)) = None \<and> target_id (fs ! (i - 1)) = source (fs ! i))"

definition consumes :: "(string \<Rightarrow> ('g \<times> string) option) \<Rightarrow> bool" where
  "consumes pat \<longleftrightarrow> (\<forall>s g rest. pat s = Some (g, rest) \<longrightarrow> strict_suffix rest s)"

text \<open>Every opening bracket of the text is followed, later in the text, by a closing one.\<close>

fun closed_brackets :: "string \<Rightarrow> bool" where
  "closed_brackets [] = True"
| "closed_brackets (c # cs) = ((c = CHR ''['' \<longrightarrow> CHR '']'' \<in> set cs) \<and> closed_brackets cs)"

text \<open>Group 1 of the citation pattern for the text between the brackets: the leading
  whitespace goes to \<open>\s*\<close>, unless the text is whitespace only, where backtracking leaves
  its last character to the group.\<close>

definition group1 :: "string \<Rightarrow> string" where
  "group1 body =
     (if dropWhile is_space body = [] then [last body] else dropWhile is_space body)"

section \<open>Facts about the string primitives\<close>

lemma py_in_iff: "py_in pat s \<longleftrightarrow> (\<exists>pre post. s = pre @ pat @ post)"
proof (induction s)
  case Nil
  then show ?case by auto
next
  case (Cons c cs)
  show ?case
  proof
    assume "py_in pat (c # cs)"
    then consider "prefix pat (c # cs)" | "py_in pat cs" by auto
    then show "\<exists>pre post. c # cs = pre @ pat @ post"
    proof cases
      case 1
      then obtain post where "c # cs = pat @ post" by (auto simp: prefix_def)
      then have "c # cs = [] @ pat @ post" by simp
      then show ?thesis by blast
    next
      case 2
      with Cons.IH obtain pre post where "cs = pre @ pat @ post" by blast
      then have "c # cs = (c # pre) @ pat @ post" by simp
      then show ?thesis by blast
    qed
  next
    assume "\<exists>pre post. c # cs = pre @ pat @ post"
    then obtain pre post where eq: "c # cs = pre @ pat @ post" by blast
    show "py_in pat (c # cs)"
    proof (cases pre)
      case Nil
      with eq have "prefix pat (c # cs)" by (simp add: prefix_def)
      then show ?thesis by simp
    next
      case (Cons p ps)
      with eq have "cs = ps @ pat @ post" by simp
      with Cons.IH have "py_in pat cs" by blast
      then show ?thesis by simp
    qed
  qed
qed

section \<open>Facts about the prompt builder\<close>

lemma build_prompt_roles:
  "length (build_prompt F user_query matches facts preferences) = 2
   \<and> role (build_prompt F user_query matches facts preferences ! 0) = ''system''
   \<and> role (build_prompt F user_query matches facts preferences ! 1) = ''user''"
  unfolding build_prompt_def Let_def by simp

lemma build_prompt_system:
  assumes "n = (if CHR ''4'' \<in> set user_query then 4 else 3)"
    and "chosen = (case preferences of None \<Rightarrow> None | Some d \<Rightarrow> map_of d ''template'')"
    and "tname = (case chosen of None \<Rightarrow> ''concise'' | Some v \<Rightarrow> if v = [] then ''concise'' else v)"
    and "tpl = (case map_of (TEMPLATES n) tname of Some t \<Rightarrow> t | None \<Rightarrow> snd (hd (TEMPLATES n)))"
  shows "content (build_prompt F user_query matches facts preferences ! 0)
           = t_system tpl @ '' '' @ t_suffix tpl"
proof -
  have "chosen = map_of (case preferences of None \<Rightarrow> [] | Some d \<Rightarrow> d) ''template''"
    using assms(2) by (simp split: option.splits)
  then show ?thesis
    unfolding build_prompt_def Let_def assms(4) assms(3) assms(1) by simp
qed

lemma TEMPLATES_concise:
  "map_of (TEMPLATES n) ''concise'' = Some (snd (hd (TEMPLATES n)))"
  by (simp add: TEMPLATES_def)

lemma TEMPLATES_chain_of_thought:
  "\<exists>t. map_of (TEMPLATES n) ''chain_of_thought'' = Some t"
  by (simp add: TEMPLATES_def)

lemma TEMPLATES_other:
  "x \<noteq> ''concise'' \<Longrightarrow> x \<noteq> ''chain_of_thought'' \<Longrightarrow> map_of (TEMPLATES n) x = None"
  by (simp add: TEMPLATES_def)

lemma TEMPLATES_suffix:
  "t \<in> snd ` set (TEMPLATES n)
   \<Longrightarrow> \<exists>post. t_suffix t = ''Provide exactly '' @ str_int n @ ''-day itineraries'' @ post"
  by (auto simp: TEMPLATES_def)

section \<open>Facts about the context merger\<close>

lemma foldl_snoc_map: "foldl (\<lambda>acc x. acc @ [g x]) acc xs = acc @ map g xs"
  by (induction xs arbitrary: acc) simp_all

lemma mset_sorted_reverse: "mset (sorted_reverse key xs) = mset xs"
  by (simp add: sorted_reverse_def)

lemma sorted_reverse_descending:
  "sorted_wrt (\<lambda>a b. key b \<le> key a) (sorted_reverse key xs)"
proof -
  have "sorted (map key (sort_key key (rev xs)))"
    by (rule sorted_sort_key)
  then have "sorted_wrt (\<lambda>a b. key a \<le> key b) (sort_key key (rev xs))"
    by (simp add: sorted_wrt_map)
  then show ?thesis
    by (simp add: sorted_reverse_def sorted_wrt_rev)
qed

lemma sorted_reverse_stable:
  "filter (\<lambda>x. key x = k) (sorted_reverse key xs) = filter (\<lambda>x. key x = k) xs"
proof -
  have "filter (\<lambda>x. key x = k) (sorted_reverse key xs)
      = rev (filter (\<lambda>x. key x = k) (sort_key key (rev xs)))"
    by (simp add: sorted_reverse_def rev_filter)
  also have "\<dots> = rev (filter (\<lambda>x. key x = k) (rev xs))"
    by (simp only: sort_key_stable)
  also have "\<dots> = filter (\<lambda>x. key x = k) xs"
    by (simp add: rev_filter)
  finally show ?thesis .
qed

section \<open>Facts about the graph expansion\<close>

lemma foldl_add_record: "foldl add_record acc recs = acc @ concat (map hop_group recs)"
  by (induction recs arbitrary: acc) (simp_all add: add_record_def hop_group_def Let_def)

lemma desc400_length: "length (desc400 d) \<le> 400"
  by (simp add: desc400_def)

lemma hop_group_desc: "f \<in> set (hop_group r) \<Longrightarrow> length (target_desc f) \<le> 400"
  by (auto simp: hop_group_def one_hop_def two_hop_def desc400_length split: if_splits)

lemma after_its_one_hop_group: "after_its_one_hop (hop_group r)"
  by (auto simp: after_its_one_hop_def hop_group_def one_hop_def two_hop_def less_Suc_eq)

lemma after_its_one_hop_append:
  assumes "after_its_one_hop xs" "after_its_one_hop ys"
  shows "after_its_one_hop (xs @ ys)"
  unfolding after_its_one_hop_def
proof (intro allI impI)
  fix i
  assume i: "i < length (xs @ ys)" and src: "source ((xs @ ys) ! i) \<noteq> None"
  show "0 < i \<and> source ((xs @ ys) ! (i - 1)) = None
      \<and> target_id ((xs @ ys) ! (i - 1)) = source ((xs @ ys) ! i)"
  proof (cases "i < length xs")
    case True
    with src have "source (xs ! i) \<noteq> None" by (simp add: nth_append)
    with assms(1) True have "0 < i \<and> source (xs ! (i - 1)) = None
        \<and> target_id (xs ! (i - 1)) = source (xs ! i)"
      by (simp add: after_its_one_hop_def)
    moreover from True have "i - 1 < length xs" by simp
    ultimately show ?thesis using True by (simp add: nth_append)
  next
    case False
    define j where "j = i - length xs"
    from False i have j: "j < length ys" "i = length xs + j" by (simp_all add: j_def)
    with src have "source (ys ! j) \<noteq> None" by (simp add: nth_append)
    with assms(2) j(1) have *: "0 < j \<and> source (ys ! (j - 1)) = None
        \<and> target_id (ys ! (j - 1)) = source (ys ! j)"
      by (simp add: after_its_one_hop_def)
    then have k: "i - 1 = length xs + (j - 1)" "0 < i" using j(2) by simp_all
    have "(xs @ ys) ! (i - 1) = ys ! (j - 1)"
      unfolding k(1) by (rule nth_append_length_plus)
    moreover have "(xs @ ys) ! i = ys ! j"
      unfolding j(2) by (rule nth_append_length_plus)
    ultimately show ?thesis using * k(2) by simp
  qed
qed

lemma after_its_one_hop_concat: "after_its_one_hop (concat (map hop_group recs))"
proof (induction recs)
  case Nil
  show ?case by (simp add: after_its_one_hop_def)
next
  case (Cons r recs)
  then show ?case
    by (simp add: after_its_one_hop_append after_its_one_hop_group)
qed

lemma after_its_one_hop_take:
  assumes "after_its_one_hop fs"
  shows "after_its_one_hop (take n fs)"
  unfolding after_its_one_hop_def
proof (intro allI impI)
  fix i
  assume i: "i < length (take n fs)" and src: "source (take n fs ! i) \<noteq> None"
  from i have "i < length fs \<and> i < n \<and> i - 1 < n" by auto
  with assms src show "0 < i \<and> source (take n fs ! (i - 1)) = None
      \<and> target_id (take n fs ! (i - 1)) = source (take n fs ! i)"
    by (simp add: after_its_one_hop_def)
qed

section \<open>Facts about the regular expressions\<close>

lemma backtrack_SomeD:
  "backtrack lo n k = Some x \<Longrightarrow> \<exists>m. lo \<le> m \<and> m \<le> n \<and> k m = Some x"
proof (induction n)
  case 0
  then show ?case by (auto split: if_splits)
next
  case (Suc n)
  show ?case
  proof (cases "k (Suc n)")
    case None
    with Suc.prems have "backtrack lo n k = Some x" by (simp split: if_splits)
    with Suc.IH obtain m where "lo \<le> m" "m \<le> n" "k m = Some x" by blast
    then show ?thesis by (intro exI [of _ m]) simp
  next
    case (Some y)
    with Suc.prems have "\<not> Suc n < lo" "y = x" by (simp_all split: if_splits)
    with Some show ?thesis by (intro exI [of _ "Suc n"]) simp
  qed
qed

lemma backtrack_first: "lo \<le> n \<Longrightarrow> k n = Some x \<Longrightarrow> backtrack lo n k = Some x"
  by (cases n) auto

lemma backtrack_skip:
  "lo \<le> Suc n \<Longrightarrow> k (Suc n) = None \<Longrightarrow> backtrack lo (Suc n) k = backtrack lo n k"
  by simp

lemma backtrack_below: "n < lo \<Longrightarrow> backtrack lo n k = None"
  by (cases n) auto

lemma backtrack_None:
  "(\<And>m. lo \<le> m \<Longrightarrow> m \<le> n \<Longrightarrow> k m = None) \<Longrightarrow> backtrack lo n k = None"
proof (induction n)
  case 0
  then show ?case by simp
next
  case (Suc n)
  show ?case
  proof (cases "Suc n < lo")
    case True
    then show ?thesis by simp
  next
    case False
    then have "k (Suc n) = None" by (intro Suc.prems) simp_all
    moreover have "backtrack lo n k = None" by (rule Suc.IH) (simp add: Suc.prems)
    ultimately show ?thesis by simp
  qed
qed

lemma many_SomeD:
  "many lo P s k = Some x
   \<Longrightarrow> \<exists>n. lo \<le> n \<and> n \<le> length (takeWhile P s) \<and> k (take n s) (drop n s) = Some x"
  unfolding many_def by (drule backtrack_SomeD) blast

lemma many_first:
  assumes "lo \<le> length (takeWhile P s)" and "k (takeWhile P s) (dropWhile P s) = Some x"
  shows "many lo P s k = Some x"
proof -
  have "take (length (takeWhile P s)) s = takeWhile P s"
    by (simp add: takeWhile_eq_take [symmetric])
  moreover have "drop (length (takeWhile P s)) s = dropWhile P s"
    by (simp add: dropWhile_eq_drop [symmetric])
  ultimately show ?thesis
    unfolding many_def using assms by (intro backtrack_first) simp_all
qed

lemma many_second:
  assumes "length (takeWhile P s) = Suc n" and "lo \<le> n"
    and "k (take (Suc n) s) (drop (Suc n) s) = None"
    and "k (take n s) (drop n s) = Some x"
  shows "many lo P s k = Some x"
proof -
  have "many lo P s k = backtrack lo n (\<lambda>n. k (take n s) (drop n s))"
    unfolding many_def assms(1) using assms(2,3) by (intro backtrack_skip) simp_all
  also have "\<dots> = Some x"
    using assms(2,4) by (intro backtrack_first) simp_all
  finally show ?thesis .
qed

lemma many_below: "length (takeWhile P s) < lo \<Longrightarrow> many lo P s k = None"
  unfolding many_def by (rule backtrack_below)

lemma many_None:
  "(\<And>n. lo \<le> n \<Longrightarrow> n \<le> length (takeWhile P s) \<Longrightarrow> k (take n s) (drop n s) = None)
   \<Longrightarrow> many lo P s k = None"
  unfolding many_def by (rule backtrack_None) simp

lemma strip_prefix_SomeD:
  "strip_prefix ic p s = Some r \<Longrightarrow> \<exists>m. s = m @ r \<and> length m = length p"
proof (induction ic p s rule: strip_prefix.induct)
  case (1 ic s)
  then show ?case by simp
next
  case (2 ic p ps)
  then show ?case by simp
next
  case (3 ic p ps c cs)
  then have "strip_prefix ic ps cs = Some r" by (simp split: if_splits)
  with 3 obtain m where "cs = m @ r" "length m = length ps" by (auto split: if_splits)
  then have "c # cs = (c # m) @ r \<and> length (c # m) = length (p # ps)" by simp
  then show ?case by blast
qed

lemma lit_SomeD:
  "lit ic p s k = Some x \<Longrightarrow> \<exists>m r. s = m @ r \<and> length m = length p \<and> k r = Some x"
proof -
  assume a: "lit ic p s k = Some x"
  then obtain r where r: "strip_prefix ic p s = Some r" "k r = Some x"
    by (auto simp: lit_def split: option.splits)
  from strip_prefix_SomeD [OF r(1)] r(2) show ?thesis by blast
qed

lemma lit_char:
  "lit False [c] s k = (case s of [] \<Rightarrow> None | d # r \<Rightarrow> if d = c then k r else None)"
  by (cases s) (simp_all add: lit_def)

lemma suffix_drop_trans: "suffix r (drop n s) \<Longrightarrow> suffix r s"
  using suffix_drop suffix_order.trans by blast

lemma strict_suffixI: "s = m @ r \<Longrightarrow> m \<noteq> [] \<Longrightarrow> strict_suffix r s"
  by (auto simp: strict_suffix_def suffix_def)

lemma citation_pat_SomeD:
  assumes "citation_pat s = Some (g, rest)"
  shows "\<exists>t. s = CHR ''['' # t @ CHR '']'' # rest"
proof -
  from assms obtain s1 where s: "s = CHR ''['' # s1"
    and 1: "many 0 is_space s1 (\<lambda>_ s2. many 1 (\<lambda>c. c \<noteq> CHR '']'') s2 (\<lambda>g s3.
              many 0 is_space s3 (\<lambda>_ s4. lit False '']'' s4 (\<lambda>s5. Some (g, s5))))) = Some (g, rest)"
    by (cases s) (auto simp: citation_pat_def lit_char split: if_splits)
  from many_SomeD [OF 1] obtain n1 where
    2: "many 1 (\<lambda>c. c \<noteq> CHR '']'') (drop n1 s1) (\<lambda>g s3.
              many 0 is_space s3 (\<lambda>_ s4. lit False '']'' s4 (\<lambda>s5. Some (g, s5)))) = Some (g, rest)"
    by blast
  from many_SomeD [OF 2] obtain n2 where
    3: "many 0 is_space (drop n2 (drop n1 s1))
          (\<lambda>_ s4. lit False '']'' s4 (\<lambda>s5. Some (take n2 (drop n1 s1), s5))) = Some (g, rest)"
    by blast
  from many_SomeD [OF 3] obtain n3 where
    4: "lit False '']'' (drop n3 (drop n2 (drop n1 s1))) (\<lambda>s5. Some (take n2 (drop n1 s1), s5)) = Some (g, rest)"
    by blast
  then have 5: "drop n3 (drop n2 (drop n1 s1)) = CHR '']'' # rest"
    by (auto simp: lit_char split: list.splits if_splits)
  have "s1 = take (n1 + n2 + n3) s1 @ drop (n1 + n2 + n3) s1" by simp
  also have "drop (n1 + n2 + n3) s1 = CHR '']'' # rest"
    using 5 by (simp add: add.commute add.left_commute)
  finally show ?thesis using s by blast
qed

lemma citation_pat_consumes: "consumes citation_pat"
  unfolding consumes_def
proof (intro allI impI)
  fix s g rest
  assume "citation_pat s = Some (g, rest)"
  then obtain t where "s = (CHR ''['' # t @ [CHR '']'']) @ rest"
    by (auto dest: citation_pat_SomeD)
  then show "strict_suffix rest s" by (rule strict_suffixI) simp
qed

lemma re_sub_Cons:
  assumes "consumes pat"
  shows "re_sub pat rp (c # cs) =
     (case pat (c # cs) of
        None \<Rightarrow> c # re_sub pat rp cs
      | Some (g, rest) \<Rightarrow>
          rp g (take (length (c # cs) - length rest) (c # cs)) @ re_sub pat rp rest)"
proof (cases "pat (c # cs)")
  case None
  then show ?thesis by simp
next
  case (Some a)
  obtain g rest where a: "a = (g, rest)" by (cases a)
  with Some assms have "strict_suffix rest (c # cs)" by (simp add: consumes_def)
  then obtain zs where "zs \<noteq> []" "c # cs = zs @ rest"
    by (auto simp: strict_suffix_def suffix_def)
  then have "length rest \<le> length cs"
    by (cases zs) auto
  with Some a show ?thesis by simp
qed

lemma re_sub_identity:
  assumes "consumes pat" and "\<And>g w. rp g w = w"
  shows "re_sub pat rp s = s"
proof (induction s rule: length_induct)
  case (1 s)
  show ?case
  proof (cases s)
    case Nil
    then show ?thesis by simp
  next
    case (Cons c cs)
    show ?thesis
    proof (cases "pat (c # cs)")
      case None
      with 1 Cons show ?thesis by (simp add: re_sub_Cons [OF assms(1)])
    next
      case (Some a)
      obtain g rest where a: "a = (g, rest)" by (cases a)
      with Some assms(1) have "strict_suffix rest (c # cs)" by (simp add: consumes_def)
      then obtain m where m: "c # cs = m @ rest" "m \<noteq> []"
        by (auto simp: strict_suffix_def suffix_def)
      then have "length rest < length s" using Cons by (metis length_append length_greater_0_conv less_add_same_cancel2)
      with 1 have "re_sub pat rp rest = rest" by blast
      moreover have "take (length (c # cs) - length rest) (c # cs) = m"
        using m(1) by (metis add_diff_cancel_right' append_eq_conv_conj length_append)
      moreover have "re_sub pat rp (c # cs)
          = rp g (take (length (c # cs) - length rest) (c # cs)) @ re_sub pat rp rest"
        unfolding re_sub_Cons [OF assms(1)] Some a by simp
      ultimately have "re_sub pat rp (c # cs) = m @ rest"
        by (simp only: assms(2))
      with m(1) Cons show ?thesis by simp
    qed
  qed
qed

section \<open>Facts about the citation expander\<close>

lemma meta_fold_filter:
  "foldl (\<lambda>d m. case m_id m of None \<Rightarrow> d
            | Some i \<Rightarrow> if i \<noteq> [] then d(i \<mapsto> get_or (m_metadata m) empty_metadata) else d) d
         (filter (\<lambda>m. truthy (m_id m)) ms)
   = foldl (\<lambda>d m. case m_id m of None \<Rightarrow> d
            | Some i \<Rightarrow> if i \<noteq> [] then d(i \<mapsto> get_or (m_metadata m) empty_metadata) else d) d ms"
  by (induction ms arbitrary: d) (auto simp: truthy_def split: option.splits)

lemma meta_by_id_filter: "meta_by_id (filter (\<lambda>m. truthy (m_id m)) ms) = meta_by_id ms"
  unfolding meta_by_id_def by (rule meta_fold_filter)

lemma facts_fold_filter:
  "foldl (\<lambda>d f. case target_id f of None \<Rightarrow> d
            | Some i \<Rightarrow> if i \<noteq> [] then d(i \<mapsto> f) else d) d
         (filter (\<lambda>f. truthy (target_id f)) fs)
   = foldl (\<lambda>d f. case target_id f of None \<Rightarrow> d
            | Some i \<Rightarrow> if i \<noteq> [] then d(i \<mapsto> f) else d) d fs"
  by (induction fs arbitrary: d) (auto simp: truthy_def split: option.splits)

lemma facts_by_id_filter: "facts_by_id (filter (\<lambda>f. truthy (target_id f)) fs) = facts_by_id fs"
  unfolding facts_by_id_def by (rule facts_fold_filter)

lemma meta_by_id_no_ids:
  assumes "\<forall>m \<in> set ms. \<not> truthy (m_id m)"
  shows "meta_by_id ms = Map.empty"
proof -
  from assms have "filter (\<lambda>m. truthy (m_id m)) ms = []" by (simp add: filter_empty_conv)
  with meta_by_id_filter [of ms] show ?thesis by (simp add: meta_by_id_def)
qed

lemma facts_by_id_no_ids:
  assumes "\<forall>f \<in> set fs. \<not> truthy (target_id f)"
  shows "facts_by_id fs = Map.empty"
proof -
  from assms have "filter (\<lambda>f. truthy (target_id f)) fs = []" by (simp add: filter_empty_conv)
  with facts_by_id_filter [of fs] show ?thesis by (simp add: facts_by_id_def)
qed

lemma meta_fold_other:
  "\<forall>m \<in> set ms. m_id m \<noteq> Some i \<Longrightarrow>
   foldl (\<lambda>d m. case m_id m of None \<Rightarrow> d
            | Some i \<Rightarrow> if i \<noteq> [] then d(i \<mapsto> get_or (m_metadata m) empty_metadata) else d) d ms i
   = d i"
  by (induction ms arbitrary: d) (auto split: option.splits)

lemma facts_fold_other:
  "\<forall>f \<in> set fs. target_id f \<noteq> Some i \<Longrightarrow>
   foldl (\<lambda>d f. case target_id f of None \<Rightarrow> d
            | Some i \<Rightarrow> if i \<noteq> [] then d(i \<mapsto> f) else d) d fs i
   = d i"
  by (induction fs arbitrary: d) (auto split: option.splits)

lemma meta_by_id_absent: "\<forall>m \<in> set ms. m_id m \<noteq> Some i \<Longrightarrow> meta_by_id ms i = None"
  unfolding meta_by_id_def by (simp add: meta_fold_other)

lemma facts_by_id_absent: "\<forall>f \<in> set fs. target_id f \<noteq> Some i \<Longrightarrow> facts_by_id fs i = None"
  unfolding facts_by_id_def by (simp add: facts_fold_other)

lemma meta_by_id_last:
  assumes "i \<noteq> []" and "m_id m = Some i" and "\<forall>m' \<in> set after. m_id m' \<noteq> Some i"
  shows "meta_by_id (before @ m # after) i = Some (get_or (m_metadata m) empty_metadata)"
  unfolding meta_by_id_def using assms by (simp add: meta_fold_other)

lemma repl_empty: "repl Map.empty Map.empty g whole = whole"
  by (simp add: repl_def)

lemma strip_dropWhile: "strip (dropWhile is_space s) = strip s"
  by (simp add: strip_def lstrip_def)

lemma strip_all_space:
  assumes "\<forall>c \<in> set s. is_space c"
  shows "strip s = []"
proof -
  from assms have d: "dropWhile is_space s = []" by simp
  show ?thesis unfolding strip_def lstrip_def rstrip_def d by simp
qed

lemma takeWhile_until: "y \<notin> set xs \<Longrightarrow> takeWhile (\<lambda>c. c \<noteq> y) (xs @ y # ys) = xs"
  by (induction xs) auto

lemma dropWhile_until: "y \<notin> set xs \<Longrightarrow> dropWhile (\<lambda>c. c \<noteq> y) (xs @ y # ys) = y # ys"
  by (induction xs) auto

lemma takeWhile_all_then: "\<forall>x \<in> set xs. P x \<Longrightarrow> \<not> P y \<Longrightarrow> takeWhile P (xs @ y # ys) = xs"
  by (induction xs) auto

lemma strip_group1:
  assumes "body \<noteq> []"
  shows "strip (group1 body) = strip body"
proof (cases "dropWhile is_space body = []")
  case False
  then have "group1 body = dropWhile is_space body"
    unfolding group1_def by (rule if_not_P)
  then show ?thesis by (simp only: strip_dropWhile)
next
  case True
  then have all: "\<forall>c \<in> set body. is_space c" by (simp add: dropWhile_eq_Nil_conv)
  with assms have "is_space (last body)" by simp
  then have "strip [last body] = []" by (intro strip_all_space) simp
  moreover from all have "strip body = []" by (rule strip_all_space)
  moreover from True have "group1 body = [last body]"
    unfolding group1_def by (rule if_P)
  ultimately show ?thesis by simp
qed

lemma placeholder_id_group1: "body \<noteq> [] \<Longrightarrow> placeholder_id (group1 body) = placeholder_id body"
  by (simp add: placeholder_id_def strip_group1)

lemma not_space_rbracket: "\<not> is_space (CHR '']'')"
  by (simp add: is_space_def)

lemma citation_close:
  "many 0 is_space (CHR '']'' # post) (\<lambda>_ s4. lit False '']'' s4 (\<lambda>s5. Some (g, s5))) = Some (g, post)"
  by (rule many_first) (simp_all add: not_space_rbracket lit_char)

lemma citation_group:
  assumes "c2 \<noteq> []" and "CHR '']'' \<notin> set c2"
  shows "many 1 (\<lambda>c. c \<noteq> CHR '']'') (c2 @ CHR '']'' # post)
           (\<lambda>g s3. many 0 is_space s3 (\<lambda>_ s4. lit False '']'' s4 (\<lambda>s5. Some (g, s5))))
         = Some (c2, post)"
proof -
  from assms(2) have tw: "takeWhile (\<lambda>c. c \<noteq> CHR '']'') (c2 @ CHR '']'' # post) = c2"
    by (rule takeWhile_until)
  from assms(2) have dw: "dropWhile (\<lambda>c. c \<noteq> CHR '']'') (c2 @ CHR '']'' # post) = CHR '']'' # post"
    by (rule dropWhile_until)
  show ?thesis
  proof (rule many_first)
    from assms(1) show "1 \<le> length (takeWhile (\<lambda>c. c \<noteq> CHR '']'') (c2 @ CHR '']'' # post))"
      unfolding tw by (cases c2) simp_all
    show "many 0 is_space (dropWhile (\<lambda>c. c \<noteq> CHR '']'') (c2 @ CHR '']'' # post))
            (\<lambda>_ s4. lit False '']'' s4
               (\<lambda>s5. Some (takeWhile (\<lambda>c. c \<noteq> CHR '']'') (c2 @ CHR '']'' # post), s5)))
          = Some (c2, post)"
      unfolding tw dw by (rule citation_close)
  qed
qed

lemma citation_group_empty:
  "many 1 (\<lambda>c. c \<noteq> CHR '']'') (CHR '']'' # post) k = None"
  by (rule many_below) simp

lemma citation_pat_match:
  assumes "body \<noteq> []" and "CHR '']'' \<notin> set body"
  shows "citation_pat (CHR ''['' # body @ CHR '']'' # post) = Some (group1 body, post)"
proof -
  let ?k = "\<lambda>(u :: string) s2. many 1 (\<lambda>c. c \<noteq> CHR '']'') s2
              (\<lambda>g s3. many 0 is_space s3 (\<lambda>_ s4. lit False '']'' s4 (\<lambda>s5. Some (g, s5))))"
  let ?t = "body @ CHR '']'' # post"
  have cp: "citation_pat (CHR ''['' # ?t) = many 0 is_space ?t ?k"
    by (simp add: citation_pat_def lit_char)
  show ?thesis
  proof (cases "dropWhile is_space body = []")
    case False
    then obtain x where x: "x \<in> set body" "\<not> is_space x"
      by (auto simp: dropWhile_eq_Nil_conv)
    then have tw: "takeWhile is_space ?t = takeWhile is_space body"
      by (rule takeWhile_append1)
    have dw: "dropWhile is_space ?t = dropWhile is_space body @ CHR '']'' # post"
      using x by (rule dropWhile_append1)
    have "CHR '']'' \<notin> set (dropWhile is_space body)"
      using assms(2) by (meson in_mono set_dropWhileD subsetI)
    with False have kf: "?k (takeWhile is_space ?t) (dropWhile is_space ?t)
        = Some (dropWhile is_space body, post)"
      unfolding dw by (intro citation_group)
    have "many 0 is_space ?t ?k = Some (dropWhile is_space body, post)"
      by (rule many_first [where k = ?k and P = is_space and s = ?t and lo = 0, OF _ kf]) simp
    moreover from False have "group1 body = dropWhile is_space body"
      unfolding group1_def by (rule if_not_P)
    ultimately show ?thesis using cp by simp
  next
    case True
    then have all: "\<forall>c \<in> set body. is_space c" by (simp add: dropWhile_eq_Nil_conv)
    from assms(1) obtain n where n: "length body = Suc n" by (cases body) auto
    have tw: "takeWhile is_space ?t = body"
      using all not_space_rbracket by (rule takeWhile_all_then)
    have d1: "drop (Suc n) ?t = CHR '']'' # post" using n by simp
    have d2: "drop n ?t = [last body] @ CHR '']'' # post"
    proof -
      have "drop n body = [last body]"
        using n assms(1)
        by (metis append_butlast_last_id append_eq_conv_conj diff_Suc_1 length_butlast)
      then show ?thesis using n by simp
    qed
    have "CHR '']'' \<notin> set [last body]"
      using assms by (metis empty_iff empty_set last_in_set set_ConsD)
    then have k2: "?k (take n ?t) (drop n ?t) = Some ([last body], post)"
      unfolding d2 by (intro citation_group) simp_all
    have k1: "?k (take (Suc n) ?t) (drop (Suc n) ?t) = None"
      unfolding d1 by (rule citation_group_empty)
    have "length (takeWhile is_space ?t) = Suc n" unfolding tw by (rule n)
    then have "many 0 is_space ?t ?k = Some ([last body], post)"
      by (rule many_second [where k = ?k and P = is_space and s = ?t and lo = 0, OF _ _ k1 k2]) simp
    moreover from True have "group1 body = [last body]"
      unfolding group1_def by (rule if_P)
    ultimately show ?thesis using cp by simp
  qed
qed

lemma citation_pat_empty_brackets: "citation_pat (CHR ''['' # CHR '']'' # post) = None"
proof -
  let ?k = "\<lambda>(u :: string) s2. many 1 (\<lambda>c. c \<noteq> CHR '']'') s2
              (\<lambda>g s3. many 0 is_space s3 (\<lambda>_ s4. lit False '']'' s4 (\<lambda>s5. Some (g, s5))))"
  have "?k [] (CHR '']'' # post) = (None :: (string \<times> string) option)"
    by (rule citation_group_empty)
  moreover have "many 0 is_space (CHR '']'' # post) ?k = ?k [] (CHR '']'' # post)"
    unfolding many_def by (simp add: not_space_rbracket del: One_nat_def)
  ultimately have "many 0 is_space (CHR '']'' # post) ?k = None" by simp
  then show ?thesis by (simp add: citation_pat_def lit_char)
qed

lemma citation_pat_other: "c \<noteq> CHR ''['' \<Longrightarrow> citation_pat (c # cs) = None"
  by (simp add: citation_pat_def lit_char)

lemma closed_brackets_append: "closed_brackets (xs @ ys) \<Longrightarrow> closed_brackets ys"
  by (induction xs) auto

lemma re_sub_citation_append:
  assumes "closed_brackets pre"
  shows "re_sub citation_pat rp (pre @ rest) = re_sub citation_pat rp pre @ re_sub citation_pat rp rest"
  using assms
proof (induction pre rule: length_induct)
  case (1 pre)
  note sub = re_sub_Cons [OF citation_pat_consumes]
  show ?case
  proof (cases pre)
    case Nil
    then show ?thesis by simp
  next
    case (Cons c cs)
    with "1.prems" have closed_cs: "closed_brackets cs" by simp
    from Cons have "length cs < length pre" by simp
    with 1 closed_cs have IH: "re_sub citation_pat rp (cs @ rest)
        = re_sub citation_pat rp cs @ re_sub citation_pat rp rest"
      by blast
    show ?thesis
    proof (cases "c = CHR ''[''")
      case False
      then have "citation_pat (c # cs) = None" "citation_pat (c # cs @ rest) = None"
        by (rule citation_pat_other)+
      with IH Cons show ?thesis by (simp add: sub)
    next
      case True
      with "1.prems" Cons have "CHR '']'' \<in> set cs" by simp
      then obtain body post where cs: "cs = body @ CHR '']'' # post" and nb: "CHR '']'' \<notin> set body"
        by (auto dest: split_list_first)
      show ?thesis
      proof (cases "body = []")
        case True
        with cs have "citation_pat (CHR ''['' # cs) = None"
          "citation_pat (CHR ''['' # cs @ rest) = None"
          by (simp_all add: citation_pat_empty_brackets)
        with IH Cons \<open>c = CHR ''[''\<close> show ?thesis by (simp add: sub)
      next
        case False
        from closed_cs cs have "closed_brackets (CHR '']'' # post)"
          using closed_brackets_append by blast
        then have closed_post: "closed_brackets post" by simp
        have "length post < length pre" using Cons cs by simp
        with 1 closed_post have IHp: "re_sub citation_pat rp (post @ rest)
            = re_sub citation_pat rp post @ re_sub citation_pat rp rest"
          by blast
        have m1: "citation_pat (CHR ''['' # body @ CHR '']'' # post) = Some (group1 body, post)"
          using False nb by (rule citation_pat_match)
        have m2: "citation_pat (CHR ''['' # body @ CHR '']'' # post @ rest) = Some (group1 body, post @ rest)"
          using False nb by (rule citation_pat_match)
        have "re_sub citation_pat rp (CHR ''['' # body @ CHR '']'' # post)
            = rp (group1 body) (CHR ''['' # body @ [CHR '']'']) @ re_sub citation_pat rp post"
          by (simp add: sub m1)
        moreover have "re_sub citation_pat rp (CHR ''['' # body @ CHR '']'' # post @ rest)
            = rp (group1 body) (CHR ''['' # body @ [CHR '']'']) @ re_sub citation_pat rp (post @ rest)"
          by (simp add: sub m2)
        ultimately show ?thesis using IHp Cons cs \<open>c = CHR ''[''\<close> by simp
      qed
    qed
  qed
qed

lemma re_sub_citation_placeholder:
  assumes "closed_brackets pre" and "body \<noteq> []" and "CHR '']'' \<notin> set body"
  shows "re_sub citation_pat rp (pre @ ''['' @ body @ '']'' @ post)
       = re_sub citation_pat rp pre @ rp (group1 body) (''['' @ body @ '']'')
         @ re_sub citation_pat rp post"
proof -
  have m: "citation_pat (CHR ''['' # body @ CHR '']'' # post) = Some (group1 body, post)"
    using assms(2,3) by (rule citation_pat_match)
  have "re_sub citation_pat rp (CHR ''['' # body @ CHR '']'' # post)
      = rp (group1 body) (CHR ''['' # body @ [CHR '']'']) @ re_sub citation_pat rp post"
    by (simp add: re_sub_Cons [OF citation_pat_consumes] m)
  with re_sub_citation_append [OF assms(1), of rp "''['' @ body @ '']'' @ post"]
  show ?thesis by simp
qed

section \<open>Facts about the cache key\<close>

lemma length_round256: "length (round256 st k w) = length st"
  by (induction st k w rule: round256.induct) (simp_all add: new_state_def)

lemma length_rounds: "length (rounds ks w st) = length st"
  by (induction ks arbitrary: w st) (simp_all add: length_round256)

lemma length_compress: "length (compress hs block) = length hs"
  by (simp add: compress_def length_rounds)

lemma length_foldl_compress: "length (foldl compress hs bs) = length hs"
  by (induction bs arbitrary: hs) (simp_all add: length_compress)

lemma length_hex8: "length (hex8 w) = 8"
  by (simp add: hex8_def)

lemma hex_digit: "''0123456789abcdef'' ! (n mod 16) \<in> set ''0123456789abcdef''"
  by (rule nth_mem) simp

lemma set_hex8: "set (hex8 w) \<subseteq> set ''0123456789abcdef''"
proof -
  have "\<And>i. ''0123456789abcdef'' ! (w div 16 ^ i mod 16) \<in> set ''0123456789abcdef''"
    by (rule hex_digit)
  then show ?thesis unfolding hex8_def set_map by blast
qed

lemma length_concat_hex8: "length (concat (map hex8 ws)) = 8 * length ws"
  by (induction ws) (simp_all add: length_hex8)

lemma length_sha256_hexdigest: "length (sha256_hexdigest m) = 64"
  by (simp add: sha256_hexdigest_def length_concat_hex8 length_foldl_compress H256_def)

lemma set_sha256_hexdigest: "set (sha256_hexdigest m) \<subseteq> set ''0123456789abcdef''"
  unfolding sha256_hexdigest_def using set_hex8 by (auto simp del: set_simps list.set)

lemma finite_digests: "finite {s :: string. set s \<subseteq> set ''0123456789abcdef'' \<and> length s = 64}"
  by (rule finite_lists_length_eq) simp

lemma get_text_hash_not_injective: "\<not> inj (\<lambda>text0. get_text_hash text0 model)"
proof
  assume inj: "inj (\<lambda>text0. get_text_hash text0 model)"
  have "range (\<lambda>text0. get_text_hash text0 model)
      \<subseteq> {s. set s \<subseteq> set ''0123456789abcdef'' \<and> length s = 64}"
    using set_sha256_hexdigest length_sha256_hexdigest
    by (auto simp: get_text_hash_def Let_def simp del: set_simps list.set)
  then have "finite (range (\<lambda>text0. get_text_hash text0 model))"
    using finite_digests by (rule finite_subset)
  then have "finite (UNIV :: string set)" using inj by (rule finite_imageD)
  then show False by (simp add: infinite_UNIV_listI)
qed

lemma replicate_numeral_Cons: "replicate (numeral k) x = x # replicate (pred_numeral k) x"
  by (simp add: numeral_eq_Suc)

lemmas sha256_eval =
  sha256_hexdigest_def hex8_def compress_def next_w_def new_state_def sha_pad_def
  maj_def ch_def bsig0_def bsig1_def ssig0_def ssig1_def rotr_def add32_def K256_def H256_def
  replicate_numeral_Cons

lemma encode_hello: "encode ''hello'' = [104, 101, 108, 108, 111]"
  by (simp add: encode_def utf8_char_def)

lemma encode_world: "encode ''world'' = [119, 111, 114, 108, 100]"
  by (simp add: encode_def utf8_char_def)

lemma utf8_char_if:
  "utf8_char c = (if (of_char c :: nat) < 128 then [of_char c]
                  else [192 + of_char c div 64, 128 + of_char c mod 64])"
  by (simp add: utf8_char_def Let_def)

lemma utf8_char_not_Nil: "utf8_char c \<noteq> []"
  by (simp add: utf8_char_if)

lemma utf8_char_inj: "utf8_char a @ xs = utf8_char b @ ys \<Longrightarrow> a = b \<and> xs = ys"
proof -
  assume eq: "utf8_char a @ xs = utf8_char b @ ys"
  define m where "m = (of_char a :: nat)"
  define n where "n = (of_char b :: nat)"
  have "m = n"
  proof (cases "m < 128")
    case True
    show ?thesis
    proof (cases "n < 128")
      case True
      with \<open>m < 128\<close> eq show ?thesis by (simp add: utf8_char_if m_def n_def)
    next
      case False
      with True eq have "m = 192 + n div 64" by (simp add: utf8_char_if m_def n_def)
      with True show ?thesis by simp
    qed
  next
    case False
    show ?thesis
    proof (cases "n < 128")
      case True
      with False eq have "192 + m div 64 = n" by (simp add: utf8_char_if m_def n_def)
      with True show ?thesis by simp
    next
      case nf: False
      with False eq have "192 + m div 64 = 192 + n div 64" "128 + m mod 64 = 128 + n mod 64"
        by (simp_all add: utf8_char_if m_def n_def)
      then have "m div 64 = n div 64" "m mod 64 = n mod 64" by simp_all
      then show ?thesis by (metis div_mult_mod_eq)
    qed
  qed
  then have ab: "a = b" unfolding m_def n_def by simp
  with eq show ?thesis by simp
qed

lemma encode_inj: "encode s = encode t \<Longrightarrow> s = t"
proof (induction s arbitrary: t)
  case Nil
  then show ?case by (cases t) (simp_all add: encode_def utf8_char_not_Nil)
next
  case (Cons a s)
  show ?case
  proof (cases t)
    case Nil
    with Cons.prems show ?thesis by (simp add: encode_def utf8_char_not_Nil)
  next
    case (Cons b t')
    with Cons.prems have "utf8_char a @ encode s = utf8_char b @ encode t'"
      by (simp add: encode_def)
    then have "a = b" "encode s = encode t'" by (auto dest: utf8_char_inj)
    with Cons.IH Cons show ?thesis by simp
  qed
qed

lemma sha256_hello:
  "sha256_hexdigest [104, 101, 108, 108, 111]
     = ''2cf24dba5fb0a30e26e83b2ac5b9e29e1b161e5c1fa7425e73043362938b9824''"
  by (simp add: sha256_eval)

lemma sha256_world:
  "sha256_hexdigest [119, 111, 114, 108, 100]
     = ''486ea46224d1bb4fb680f34f7c9ad96a8f24ec88be73ea8e5a6c65260e9cb8a7''"
  by (simp add: sha256_eval)

section \<open>Claims\<close>

text \<open>
  C4. \<open>validate_response(response, trip_length)\<close> returns exactly \<open>"Valid"\<close> when the literal
  text \<open>"Day "\<close> followed by the decimal form of \<open>trip_length\<close> occurs somewhere in the response,
  and otherwise returns the incompleteness message naming the missing day, which is a string
  different from \<open>"Valid"\<close>.
\<close>

theorem validate_response_valid_iff:
  "(validate_response response trip_length = ''Valid''
      \<longleftrightarrow> (\<exists>pre post. response = pre @ ''Day '' @ str_int trip_length @ post))
   \<and> (validate_response response trip_length = ''Valid''
      \<or> validate_response response trip_length
           = ''Response incomplete: Missing Day '' @ str_int trip_length @ ''.'')
   \<and> ''Response incomplete: Missing Day '' @ str_int trip_length @ ''.'' \<noteq> ''Valid''"
  by (simp add: validate_response_def py_in_iff)

theorem validate_response_valid_iff_witness:
  "validate_response ''Day 1: Hanoi. Day 2: Hue. Day 3: Hoi An.'' 3 = ''Valid''
   \<and> validate_response ''Day 1: Hanoi. Day 2: Hue.'' 3 = ''Response incomplete: Missing Day 3.''"
proof -
  have a: "''Day 1: Hanoi. Day 2: Hue. Day 3: Hoi An.''
      = ''Day 1: Hanoi. Day 2: Hue. '' @ ''Day '' @ str_int 3 @ '': Hoi An.''"
    by (simp add: str_int_def digit_char_def)
  have b: "validate_response ''Day 1: Hanoi. Day 2: Hue.'' 3 \<noteq> ''Valid''"
    by (simp add: validate_response_def str_int_def digit_char_def)
  from a have "validate_response ''Day 1: Hanoi. Day 2: Hue. Day 3: Hoi An.'' 3 = ''Valid''"
    using validate_response_valid_iff [of "''Day 1: Hanoi. Day 2: Hue. Day 3: Hoi An.''" 3]
    by blast
  moreover from b have "validate_response ''Day 1: Hanoi. Day 2: Hue.'' 3
      = ''Response incomplete: Missing Day '' @ str_int 3 @ ''.''"
    using validate_response_valid_iff [of "''Day 1: Hanoi. Day 2: Hue.''" 3] by blast
  ultimately show ?thesis by (simp add: str_int_def digit_char_def)
qed

text \<open>
  C3. For every pass of the chat loop over a query: at most two completion calls are made. If
  the answer to the first call does not contain \<open>"Day N"\<close> (\<open>N\<close> the trip length), exactly one
  more call is made; its messages are the first call's prompt followed by one user turn asking
  to complete the missing days, and its \<open>max_tokens\<close> is 1200, larger than the first call's
  1100. If the first answer contains \<open>"Day N"\<close>, the first call is the only one.
\<close>

theorem chat_turn_retries_at_most_once:
  assumes "chat_turn F query_pinecone run llm preferences query = (calls, result)"
  shows "length calls \<le> 2
     \<and> (\<forall>answer. calls \<noteq> [] \<and> llm [hd calls] = Inr answer
           \<and> \<not> py_in (''Day '' @ str_int (if CHR ''4'' \<in> set query then 4 else 3)) answer
         \<longrightarrow> (\<exists>prompt. calls = [(prompt, 1100),
                   (prompt @ [\<lparr>role = ''user'', content = ''The previous response was incomplete. Please complete the missing day(s) and ensure all days are covered.''\<rparr>], 1200)]
                \<and> (\<exists>matches facts. prompt = build_prompt F query matches facts (Some preferences))))
     \<and> (\<forall>answer. calls \<noteq> [] \<and> llm [hd calls] = Inr answer
           \<and> py_in (''Day '' @ str_int (if CHR ''4'' \<in> set query then 4 else 3)) answer
         \<longrightarrow> (\<exists>prompt. calls = [(prompt, 1100)]))
     \<and> (1100 :: nat) < 1200"
  using assms
  by (auto simp: chat_turn_def Let_def validate_response_def followup_def
           split: sum.splits if_splits)


theorem chat_turn_retries_at_most_once_witness:
  "map snd (fst (chat_turn \<lparr>fmt_2f = (\<lambda>x. ''0.00''), str_float = (\<lambda>x. ''0.0''), repr_str = (\<lambda>s. s)\<rparr>
        (\<lambda>q. Inr []) (\<lambda>ids. Inr [])
        (\<lambda>cs. if length cs = 1 then Inr ''Day 1: Hanoi. Day 2: Hue. Day 3: Hoi An.''
              else Inr ''Day 1: Hanoi. Day 2: Hue. Day 3: Hoi An. Day 4: Da Lat.'')
        [(''budget'', ''medium''), (''interests'', ''romantic'')]
        ''Plan a 4-day romantic trip'')) = [1100, 1200]"
proof -
  let ?F = "\<lparr>fmt_2f = (\<lambda>x. ''0.00''), str_float = (\<lambda>x. ''0.0''), repr_str = (\<lambda>s. s)\<rparr>"
  let ?llm = "\<lambda>cs :: call list. if length cs = 1
        then (Inr ''Day 1: Hanoi. Day 2: Hue. Day 3: Hoi An.'' :: error + string)
        else Inr ''Day 1: Hanoi. Day 2: Hue. Day 3: Hoi An. Day 4: Da Lat.''"
  let ?t = "chat_turn ?F (\<lambda>q. Inr []) (\<lambda>ids. Inr []) ?llm
        [(''budget'', ''medium''), (''interests'', ''romantic'')] ''Plan a 4-day romantic trip''"
  have ne: "fst ?t \<noteq> []"
    by (simp add: chat_turn_def Let_def split: sum.splits)
  have first: "?llm [hd (fst ?t)] = Inr ''Day 1: Hanoi. Day 2: Hue. Day 3: Hoi An.''"
    by simp
  have missing: "\<not> py_in (''Day '' @ str_int (if CHR ''4'' \<in> set ''Plan a 4-day romantic trip'' then 4 else 3))
      ''Day 1: Hanoi. Day 2: Hue. Day 3: Hoi An.''"
    by (simp add: str_int_def digit_char_def)
  from chat_turn_retries_at_most_once [OF prod.collapse [symmetric], of ?F "\<lambda>q. Inr []" "\<lambda>ids. Inr []" ?llm
      "[(''budget'', ''medium''), (''interests'', ''romantic'')]" "''Plan a 4-day romantic trip''"]
    ne first missing
  obtain prompt where "fst ?t = [(prompt, 1100), (prompt @ [\<lparr>role = ''user'', content = ''The previous response was incomplete. Please complete the missing day(s) and ensure all days are covered.''\<rparr>], 1200)]"
    by blast
  then show ?thesis by simp
qed

text \<open>
  C5. For every query string, the trip length is 4 when the character \<open>4\<close> occurs anywhere in the
  query and 3 otherwise, both in the system turn that the prompt builder writes
  (\<open>"Provide exactly N-day itineraries"\<close>) and in the validation step of the chat loop (a retry is
  issued exactly when \<open>"Day N"\<close> is missing from the first answer). Only the presence of the
  character counts: \<open>"4 people, 3 days in Hanoi"\<close> gives 4.
\<close>

theorem trip_length_is_presence_of_4:
  "(\<exists>pre post. content (build_prompt F query matches facts preferences ! 0)
        = pre @ ''Provide exactly '' @ (if CHR ''4'' \<in> set query then ''4'' else ''3'')
          @ ''-day itineraries'' @ post)
   \<and> (\<forall>calls result answer.
         chat_turn F query_pinecone run llm prefs query = (calls, result)
         \<and> calls \<noteq> [] \<and> llm [hd calls] = Inr answer
       \<longrightarrow> (length calls = 2
            \<longleftrightarrow> \<not> py_in (''Day '' @ (if CHR ''4'' \<in> set query then ''4'' else ''3'')) answer))"
proof -
  define n :: int where "n = (if CHR ''4'' \<in> set query then 4 else 3)"
  have sn: "str_int n = (if CHR ''4'' \<in> set query then ''4'' else ''3'')"
    by (simp add: n_def str_int_def digit_char_def)
  define chosen where "chosen = (case preferences of None \<Rightarrow> None | Some d \<Rightarrow> map_of d ''template'')"
  define tname where "tname = (case chosen of None \<Rightarrow> ''concise'' | Some v \<Rightarrow> if v = [] then ''concise'' else v)"
  define tpl where "tpl = (case map_of (TEMPLATES n) tname of Some t \<Rightarrow> t | None \<Rightarrow> snd (hd (TEMPLATES n)))"
  have c: "content (build_prompt F query matches facts preferences ! 0) = t_system tpl @ '' '' @ t_suffix tpl"
    by (rule build_prompt_system [OF n_def chosen_def tname_def tpl_def])
  have "tpl \<in> snd ` set (TEMPLATES n)"
  proof (cases "map_of (TEMPLATES n) tname")
    case None
    then have "tpl = snd (hd (TEMPLATES n))" by (simp add: tpl_def)
    then show ?thesis by (simp add: TEMPLATES_def)
  next
    case (Some t)
    then have "tpl = t" by (simp add: tpl_def)
    with Some show ?thesis by (metis map_of_SomeD image_eqI snd_conv)
  qed
  then obtain post where "t_suffix tpl = ''Provide exactly '' @ str_int n @ ''-day itineraries'' @ post"
    using TEMPLATES_suffix by blast
  with c sn have "content (build_prompt F query matches facts preferences ! 0)
      = (t_system tpl @ '' '') @ ''Provide exactly '' @ (if CHR ''4'' \<in> set query then ''4'' else ''3'')
        @ ''-day itineraries'' @ post"
    by simp
  then have first: "\<exists>pre post. content (build_prompt F query matches facts preferences ! 0)
        = pre @ ''Provide exactly '' @ (if CHR ''4'' \<in> set query then ''4'' else ''3'')
          @ ''-day itineraries'' @ post"
    by blast
  have second: "length calls = 2
      \<longleftrightarrow> \<not> py_in (''Day '' @ (if CHR ''4'' \<in> set query then ''4'' else ''3'')) answer"
    if "chat_turn F query_pinecone run llm prefs query = (calls, result)" "calls \<noteq> []"
      "llm [hd calls] = Inr answer" for calls result answer
    using that sn unfolding n_def
    by (auto simp: chat_turn_def Let_def validate_response_def split: sum.splits if_splits)
  from first second show ?thesis by blast
qed

theorem trip_length_is_presence_of_4_witness:
  "(\<exists>pre post. content (build_prompt \<lparr>fmt_2f = (\<lambda>x. ''0.00''), str_float = (\<lambda>x. ''0.0''), repr_str = (\<lambda>s. s)\<rparr>
         ''4 people, 3 days in Hanoi'' [] [] None ! 0)
        = pre @ ''Provide exactly 4-day itineraries'' @ post)
   \<and> length (fst (chat_turn \<lparr>fmt_2f = (\<lambda>x. ''0.00''), str_float = (\<lambda>x. ''0.0''), repr_str = (\<lambda>s. s)\<rparr>
        (\<lambda>q. Inr []) (\<lambda>ids. Inr []) (\<lambda>cs. Inr ''Day 1: Hanoi. Day 2: Hanoi. Day 3: Hanoi.'')
        [(''budget'', ''medium'')] ''4 people, 3 days in Hanoi'')) = 2"
proof -
  let ?F = "\<lparr>fmt_2f = (\<lambda>x. ''0.00''), str_float = (\<lambda>x. ''0.0''), repr_str = (\<lambda>s. s)\<rparr>"
  let ?q = "''4 people, 3 days in Hanoi''"
  let ?llm = "\<lambda>cs :: call list. (Inr ''Day 1: Hanoi. Day 2: Hanoi. Day 3: Hanoi.'' :: error + string)"
  let ?t = "chat_turn ?F (\<lambda>q. Inr []) (\<lambda>ids. Inr []) ?llm [(''budget'', ''medium'')] ?q"
  note th = trip_length_is_presence_of_4 [of ?F ?q "[]" "[]" None "\<lambda>q. Inr []" "\<lambda>ids. Inr []" ?llm
      "[(''budget'', ''medium'')]"]
  have four: "CHR ''4'' \<in> set ?q" by simp
  have ne: "fst ?t \<noteq> []"
    by (simp add: chat_turn_def Let_def split: sum.splits)
  have missing: "\<not> py_in (''Day '' @ (if CHR ''4'' \<in> set ?q then ''4'' else ''3''))
      ''Day 1: Hanoi. Day 2: Hanoi. Day 3: Hanoi.''"
    by simp
  from th four have "\<exists>pre post. content (build_prompt ?F ?q [] [] None ! 0)
        = pre @ ''Provide exactly 4-day itineraries'' @ post"
    by simp
  moreover from th ne missing have "length (fst ?t) = 2"
    by (metis prod.collapse)
  ultimately show ?thesis by blast
qed

text \<open>
  C9. For every preferences dictionary (or none), the prompt builder uses the template named by
  \<open>preferences["template"]\<close> when that name is \<open>"concise"\<close> or \<open>"chain_of_thought"\<close>, and the
  \<open>"concise"\<close> template when the name is missing, empty or any other string: the system turn
  is the selected template's system text, a space, and its suffix. The result always has two
  turns, the first with role \<open>"system"\<close> and the second with role \<open>"user"\<close>.
\<close>

theorem build_prompt_template_selection:
  assumes "P = build_prompt F user_query matches facts preferences"
    and "n = (if CHR ''4'' \<in> set user_query then 4 else 3)"
    and "chosen = (case preferences of None \<Rightarrow> None | Some d \<Rightarrow> map_of d ''template'')"
  shows "length P = 2 \<and> role (P ! 0) = ''system'' \<and> role (P ! 1) = ''user''
     \<and> (\<forall>name. chosen = Some name \<and> (name = ''concise'' \<or> name = ''chain_of_thought'')
           \<longrightarrow> (\<exists>t. map_of (TEMPLATES n) name = Some t
                  \<and> content (P ! 0) = t_system t @ '' '' @ t_suffix t))
     \<and> (chosen = None \<or> chosen = Some [] \<or> (chosen \<noteq> Some ''concise'' \<and> chosen \<noteq> Some ''chain_of_thought'')
           \<longrightarrow> (\<exists>t. map_of (TEMPLATES n) ''concise'' = Some t
                  \<and> content (P ! 0) = t_system t @ '' '' @ t_suffix t))
     \<and> map_of (TEMPLATES n) ''concise'' \<noteq> map_of (TEMPLATES n) ''chain_of_thought''"
proof -
  define tname where "tname = (case chosen of None \<Rightarrow> ''concise'' | Some v \<Rightarrow> if v = [] then ''concise'' else v)"
  define tpl where "tpl = (case map_of (TEMPLATES n) tname of Some t \<Rightarrow> t | None \<Rightarrow> snd (hd (TEMPLATES n)))"
  have P0: "content (P ! 0) = t_system tpl @ '' '' @ t_suffix tpl"
    unfolding assms(1) by (rule build_prompt_system [OF assms(2) assms(3) tname_def tpl_def])
  have shape: "length P = 2 \<and> role (P ! 0) = ''system'' \<and> role (P ! 1) = ''user''"
    unfolding assms(1) by (rule build_prompt_roles)
  have sel: "\<exists>t. map_of (TEMPLATES n) name = Some t \<and> content (P ! 0) = t_system t @ '' '' @ t_suffix t"
    if "chosen = Some name" "name = ''concise'' \<or> name = ''chain_of_thought''" for name
  proof -
    from that have "tname = name" by (auto simp: tname_def)
    moreover from that(2) TEMPLATES_concise [of n] TEMPLATES_chain_of_thought [of n]
    obtain t where "map_of (TEMPLATES n) name = Some t" by auto
    ultimately show ?thesis using P0 by (simp add: tpl_def)
  qed
  have dflt: "\<exists>t. map_of (TEMPLATES n) ''concise'' = Some t \<and> content (P ! 0) = t_system t @ '' '' @ t_suffix t"
    if "chosen = None \<or> chosen = Some [] \<or> (chosen \<noteq> Some ''concise'' \<and> chosen \<noteq> Some ''chain_of_thought'')"
  proof -
    have "tpl = snd (hd (TEMPLATES n))"
    proof (cases "tname = ''concise''")
      case True
      then show ?thesis using TEMPLATES_concise [of n] by (simp add: tpl_def)
    next
      case False
      with that have "tname \<noteq> ''chain_of_thought''"
        by (auto simp: tname_def split: option.splits if_splits)
      with False have "map_of (TEMPLATES n) tname = None" by (rule TEMPLATES_other)
      then show ?thesis by (simp add: tpl_def)
    qed
    with TEMPLATES_concise [of n] P0 show ?thesis by simp
  qed
  have ne: "map_of (TEMPLATES n) ''concise'' \<noteq> map_of (TEMPLATES n) ''chain_of_thought''"
    by (simp add: TEMPLATES_def)
  from shape sel dflt ne show ?thesis by blast
qed

theorem build_prompt_template_selection_witness:
  "length (build_prompt \<lparr>fmt_2f = (\<lambda>x. ''0.00''), str_float = (\<lambda>x. ''0.0''), repr_str = (\<lambda>s. s)\<rparr>
             ''Plan a romantic trip'' [] [] (Some [(''budget'', ''low''), (''template'', ''chain_of_thought'')])) = 2
   \<and> content (build_prompt \<lparr>fmt_2f = (\<lambda>x. ''0.00''), str_float = (\<lambda>x. ''0.0''), repr_str = (\<lambda>s. s)\<rparr>
             ''Plan a romantic trip'' [] [] (Some [(''budget'', ''low''), (''template'', ''chain_of_thought'')]) ! 0)
       = ''You are a helpful travel assistant who explains reasoning clearly. Provide exactly 3-day itineraries with timings and local tips. After the itinerary, include a short ''
         @ [CHR 0x27] @ ''Reasoning'' @ [CHR 0x27]
         @ '' section that lists the key assumptions and steps used to produce the plan (3-5 bullet points). Keep the reasoning concise and factual.''
   \<and> content (build_prompt \<lparr>fmt_2f = (\<lambda>x. ''0.00''), str_float = (\<lambda>x. ''0.0''), repr_str = (\<lambda>s. s)\<rparr>
             ''Plan a romantic trip'' [] [] (Some [(''template'', ''detailed'')]) ! 0)
       = ''You are a helpful, concise travel assistant. Provide exactly 3-day itineraries with timings and local tips. Be concise and factual.''"
proof -
  let ?F = "\<lparr>fmt_2f = (\<lambda>x. ''0.00''), str_float = (\<lambda>x. ''0.0''), repr_str = (\<lambda>s. s)\<rparr>"
  let ?q = "''Plan a romantic trip''"
  note a = build_prompt_template_selection [OF refl refl refl, of ?F ?q "[]" "[]"
      "Some [(''budget'', ''low''), (''template'', ''chain_of_thought'')]"]
  note b = build_prompt_template_selection [OF refl refl refl, of ?F ?q "[]" "[]"
      "Some [(''template'', ''detailed'')]"]
  from a have "length (build_prompt ?F ?q [] [] (Some [(''budget'', ''low''), (''template'', ''chain_of_thought'')])) = 2"
    by blast
  moreover from a have "\<exists>t. map_of (TEMPLATES 3) ''chain_of_thought'' = Some t
      \<and> content (build_prompt ?F ?q [] [] (Some [(''budget'', ''low''), (''template'', ''chain_of_thought'')]) ! 0)
          = t_system t @ '' '' @ t_suffix t"
    by simp
  moreover from b have "\<exists>t. map_of (TEMPLATES 3) ''concise'' = Some t
      \<and> content (build_prompt ?F ?q [] [] (Some [(''template'', ''detailed'')]) ! 0)
          = t_system t @ '' '' @ t_suffix t"
    by simp
  ultimately show ?thesis
    by (auto simp: TEMPLATES_def str_int_def digit_char_def)
qed

text \<open>
  C6. For every list of Matches and every list of GraphFacts, the summary is the vector header,
  one line for each of the first 5 matches of a ranking of all the matches, the graph header,
  and one line for each of the first 7 graph facts in their own order. The ranking is a
  rearrangement of the list of matches in which no match stands before one with a higher
  \<open>score\<close> (an absent score counts as 0) and matches with equal scores keep their order; so the
  lines are those of the 5 highest-scoring matches, highest first, and of all the matches when
  there are fewer than 5. A match line carries name, type, tags and the score with two
  decimals; a fact line carries the target name and the first 120 characters of the
  description. The source has no \<open>raise\<close> and reads the lists by slices and the fields by
  \<open>.get\<close> with defaults only, so the equation holds for every input, short and empty lists
  included: for empty inputs only the two headers remain.
\<close>

theorem search_summary_ranked_top5_and_first7:
  fixes F :: py_format and matches :: "pmatch list" and facts :: "graph_fact list"
  defines "score \<equiv> \<lambda>m. case m_score m of None \<Rightarrow> 0 | Some x \<Rightarrow> x"
  defines "match_line \<equiv> \<lambda>m.
     ''- '' @ (case m_metadata m of None \<Rightarrow> ''Unknown''
               | Some md \<Rightarrow> (case md_name md of None \<Rightarrow> ''Unknown'' | Some n \<Rightarrow> n))
     @ '': '' @ (case m_metadata m of None \<Rightarrow> ''Unknown''
                 | Some md \<Rightarrow> (case md_type md of None \<Rightarrow> ''Unknown'' | Some t \<Rightarrow> t))
     @ '' (tags: '' @ join '', '' (case m_metadata m of None \<Rightarrow> []
                 | Some md \<Rightarrow> (case md_tags md of None \<Rightarrow> [] | Some ts \<Rightarrow> ts))
     @ '', score: '' @ fmt_2f F (score m) @ '')''"
  defines "fact_line \<equiv> \<lambda>f.
     ''- '' @ (case target_name f of None \<Rightarrow> ''None'' | Some n \<Rightarrow> n)
     @ '': '' @ take 120 (target_desc f) @ ''...''"
  shows "\<exists>ranked.
     mset ranked = mset matches
     \<and> sorted_wrt (\<lambda>a b. score b \<le> score a) ranked
     \<and> (\<forall>k. filter (\<lambda>m. score m = k) ranked = filter (\<lambda>m. score m = k) matches)
     \<and> search_summary F matches facts
         = ''Prioritized Vector matches:'' @ [CHR 0x0A]
           @ join [CHR 0x0A] (map match_line (take 5 ranked))
           @ [CHR 0x0A, CHR 0x0A] @ ''Prioritized Graph facts:'' @ [CHR 0x0A]
           @ join [CHR 0x0A] (map fact_line (take 7 facts))
     \<and> length (map match_line (take 5 ranked)) = min 5 (length matches)
     \<and> length (map fact_line (take 7 facts)) = min 7 (length facts)
     \<and> (\<forall>f. length (take 120 (target_desc f)) = min 120 (length (target_desc f)))
     \<and> search_summary F [] []
         = ''Prioritized Vector matches:'' @ [CHR 0x0A] @ [CHR 0x0A, CHR 0x0A]
           @ ''Prioritized Graph facts:'' @ [CHR 0x0A]"
proof -
  let ?ranked = "sorted_reverse score_key matches"
  have key: "score_key = score"
    by (rule ext) (simp add: score_key_def score_def split: option.splits)
  have ml: "vec_snippet F = match_line"
    by (rule ext)
      (simp add: vec_snippet_def match_line_def score_def empty_metadata_def Let_def
         split: option.splits)
  have fl: "graph_snippet = fact_line"
    by (rule ext) (simp add: graph_snippet_def fact_line_def split: option.splits)
  have a: "mset ?ranked = mset matches" by (rule mset_sorted_reverse)
  have b: "sorted_wrt (\<lambda>a b. score b \<le> score a) ?ranked"
    using sorted_reverse_descending [of score_key matches] by (simp only: key)
  have c: "\<forall>k. filter (\<lambda>m. score m = k) ?ranked = filter (\<lambda>m. score m = k) matches"
    using sorted_reverse_stable [of score_key _ matches] by (simp only: key) simp
  have d: "search_summary F matches facts
         = ''Prioritized Vector matches:'' @ [CHR 0x0A]
           @ join [CHR 0x0A] (map match_line (take 5 ?ranked))
           @ [CHR 0x0A, CHR 0x0A] @ ''Prioritized Graph facts:'' @ [CHR 0x0A]
           @ join [CHR 0x0A] (map fact_line (take 7 facts))"
    by (simp add: search_summary_def vec_snippets_def graph_snippets_def foldl_snoc_map NL_def ml fl)
  have "length ?ranked = length matches"
    by (simp add: sorted_reverse_def)
  then have e: "length (map match_line (take 5 ?ranked)) = min 5 (length matches)"
    by simp
  have f: "length (map fact_line (take 7 facts)) = min 7 (length facts)" by simp
  have g: "\<forall>f. length (take 120 (target_desc f)) = min 120 (length (target_desc f))"
    by (simp add: min.commute)
  have h: "search_summary F [] []
         = ''Prioritized Vector matches:'' @ [CHR 0x0A] @ [CHR 0x0A, CHR 0x0A]
           @ ''Prioritized Graph facts:'' @ [CHR 0x0A]"
    by (simp add: search_summary_def vec_snippets_def graph_snippets_def sorted_reverse_def NL_def)
  from a b c d e f g h show ?thesis by blast
qed

theorem search_summary_ranked_top5_and_first7_witness:
  "search_summary \<lparr>fmt_2f = (\<lambda>x. if x = 1/2 then ''0.50'' else ''0.90''),
                    str_float = (\<lambda>x. ''0.0''), repr_str = (\<lambda>s. s)\<rparr>
     [\<lparr>m_id = Some ''a'', m_score = Some (1/2), m_metadata = Some \<lparr>md_name = Some ''Hue'', md_type = Some ''City'', md_tags = Some [''heritage'', ''food''], md_city = None\<rparr>\<rparr>,
      \<lparr>m_id = Some ''c'', m_score = Some (9/10), m_metadata = Some \<lparr>md_name = Some ''Ha Long'', md_type = None, md_tags = None, md_city = None\<rparr>\<rparr>]
     []
   = ''Prioritized Vector matches:'' @ [CHR 0x0A]
     @ ''- Ha Long: Unknown (tags: , score: 0.90)'' @ [CHR 0x0A]
     @ ''- Hue: City (tags: heritage, food, score: 0.50)''
     @ [CHR 0x0A, CHR 0x0A] @ ''Prioritized Graph facts:'' @ [CHR 0x0A]"
proof -
  let ?F = "\<lparr>fmt_2f = (\<lambda>x :: real. if x = 1/2 then ''0.50'' else ''0.90''),
                    str_float = (\<lambda>x :: real. ''0.0''), repr_str = (\<lambda>s :: string. s)\<rparr>"
  let ?a = "\<lparr>m_id = Some ''a'', m_score = Some (1/2), m_metadata = Some \<lparr>md_name = Some ''Hue'', md_type = Some ''City'', md_tags = Some [''heritage'', ''food''], md_city = None\<rparr>\<rparr>"
  let ?c = "\<lparr>m_id = Some ''c'', m_score = Some (9/10), m_metadata = Some \<lparr>md_name = Some ''Ha Long'', md_type = None, md_tags = None, md_city = None\<rparr>\<rparr>"
  let ?score = "\<lambda>m :: pmatch. case m_score m of None \<Rightarrow> (0 :: real) | Some x \<Rightarrow> x"
  let ?line = "\<lambda>m :: pmatch.
     ''- '' @ (case m_metadata m of None \<Rightarrow> ''Unknown''
               | Some md \<Rightarrow> (case md_name md of None \<Rightarrow> ''Unknown'' | Some n \<Rightarrow> n))
     @ '': '' @ (case m_metadata m of None \<Rightarrow> ''Unknown''
                 | Some md \<Rightarrow> (case md_type md of None \<Rightarrow> ''Unknown'' | Some t \<Rightarrow> t))
     @ '' (tags: '' @ join '', '' (case m_metadata m of None \<Rightarrow> []
                 | Some md \<Rightarrow> (case md_tags md of None \<Rightarrow> [] | Some ts \<Rightarrow> ts))
     @ '', score: '' @ fmt_2f ?F (?score m) @ '')''"
  let ?fline = "\<lambda>f :: graph_fact. ''- '' @ (case target_name f of None \<Rightarrow> ''None'' | Some n \<Rightarrow> n)
     @ '': '' @ take 120 (target_desc f) @ ''...''"
  from search_summary_ranked_top5_and_first7 [of "[?a, ?c]" ?F "[]"] show ?thesis
  proof (elim exE conjE)
    fix ranked
    assume perm: "mset ranked = mset [?a, ?c]"
      and desc: "sorted_wrt (\<lambda>a b. ?score b \<le> ?score a) ranked"
      and out: "search_summary ?F [?a, ?c] []
         = ''Prioritized Vector matches:'' @ [CHR 0x0A]
           @ join [CHR 0x0A] (map ?line (take 5 ranked))
           @ [CHR 0x0A, CHR 0x0A] @ ''Prioritized Graph facts:'' @ [CHR 0x0A]
           @ join [CHR 0x0A] (map ?fline (take 7 []))"
    have "length ranked = length [?a, ?c]" using perm by (rule mset_eq_length)
    then have "length ranked = 2" by simp
    then obtain x y where xy: "ranked = [x, y]"
      by (auto simp: length_Suc_conv numeral_2_eq_2)
    with perm have "(x = ?a \<and> y = ?c) \<or> (x = ?c \<and> y = ?a)"
      by (auto simp: add_eq_conv_ex)
    moreover from desc xy have "?score y \<le> ?score x" by simp
    ultimately have "ranked = [?c, ?a]" using xy by auto
    with out show ?thesis by simp
  qed
qed

text \<open>
  C7. For every list of node ids and every list of rows that the graph query returns, the
  list of GraphFacts has at most 50 entries, every \<open>target_desc\<close> has at most 400 characters,
  the list is the first 50 entries of the rows' facts in order, each row giving its 1-hop fact
  followed, when the row has a second relationship, by its 2-hop fact; a 1-hop fact has no
  source and a 2-hop fact has the 1-hop fact's target as its source. So every fact with a
  source stands right after a fact without a source whose \<open>target_id\<close> is that source.
\<close>

theorem fetch_graph_context_bounded_and_ordered:
  assumes "fetch_graph_context run node_ids = Inr facts"
  shows "length facts \<le> 50
     \<and> (\<forall>f \<in> set facts. length (target_desc f) \<le> 400)
     \<and> (\<exists>recs. run node_ids = Inr recs
          \<and> facts = take 50 (concat (map (\<lambda>r. if truthy (r_rel2 r) then [one_hop r, two_hop r]
                                               else [one_hop r]) recs)))
     \<and> (\<forall>r. source (one_hop r) = None \<and> source (two_hop r) = target_id (one_hop r))
     \<and> (\<forall>i < length facts. source (facts ! i) \<noteq> None \<longrightarrow>
           0 < i \<and> source (facts ! (i - 1)) = None
           \<and> target_id (facts ! (i - 1)) = source (facts ! i))"
proof -
  from assms obtain recs where recs: "run node_ids = Inr recs"
    and facts: "facts = take 50 (concat (map hop_group recs))"
    by (auto simp: fetch_graph_context_def foldl_add_record split: sum.splits)
  have a: "length facts \<le> 50" by (simp add: facts)
  have b: "\<forall>f \<in> set facts. length (target_desc f) \<le> 400"
  proof
    fix f assume "f \<in> set facts"
    then have "f \<in> set (concat (map hop_group recs))"
      unfolding facts by (rule in_set_takeD)
    then show "length (target_desc f) \<le> 400" by (auto dest: hop_group_desc)
  qed
  have "hop_group = (\<lambda>r. if truthy (r_rel2 r) then [one_hop r, two_hop r] else [one_hop r])"
    by (rule ext) (simp add: hop_group_def)
  with recs facts have c: "\<exists>recs. run node_ids = Inr recs
          \<and> facts = take 50 (concat (map (\<lambda>r. if truthy (r_rel2 r) then [one_hop r, two_hop r]
                                               else [one_hop r]) recs))"
    by auto
  have d: "\<forall>r. source (one_hop r) = None \<and> source (two_hop r) = target_id (one_hop r)"
    by (simp add: one_hop_def two_hop_def)
  have "after_its_one_hop facts"
    unfolding facts by (rule after_its_one_hop_take) (rule after_its_one_hop_concat)
  then have e: "\<forall>i < length facts. source (facts ! i) \<noteq> None \<longrightarrow>
           0 < i \<and> source (facts ! (i - 1)) = None
           \<and> target_id (facts ! (i - 1)) = source (facts ! i)"
    by (simp add: after_its_one_hop_def)
  from a b c d e show ?thesis by blast
qed


theorem fetch_graph_context_bounded_and_ordered_witness:
  "fetch_graph_context
     (\<lambda>ids. Inr [\<lparr>r_rel = Some ''LOCATED_IN'', r_labels = Some [''City'', ''Entity''], r_id = Some ''city_hue'',
                     r_name = Some ''Hue'', r_type = Some ''City'', r_description = Some ''Imperial city'',
                     r_rel2 = Some ''NEAR'', r_labels2 = Some [''Attraction''], r_id2 = Some ''attr_citadel'',
                     r_name2 = Some ''Citadel'', r_type2 = None, r_description2 = None\<rparr>])
     [''hotel_1'']
   = Inr [\<lparr>source = None, rel = Some ''LOCATED_IN'', target_id = Some ''city_hue'', target_name = Some ''Hue'',
            target_desc = ''Imperial city'', labels = Some [''City'', ''Entity'']\<rparr>,
          \<lparr>source = Some ''city_hue'', rel = Some ''NEAR'', target_id = Some ''attr_citadel'',
            target_name = Some ''Citadel'', target_desc = [], labels = Some [''Attraction'']\<rparr>]
   \<and> length [\<lparr>source = None, rel = Some ''LOCATED_IN'', target_id = Some ''city_hue'', target_name = Some ''Hue'',
            target_desc = ''Imperial city'', labels = Some [''City'', ''Entity'']\<rparr>,
          \<lparr>source = Some ''city_hue'', rel = Some ''NEAR'', target_id = Some ''attr_citadel'',
            target_name = Some ''Citadel'', target_desc = [], labels = Some [''Attraction'']\<rparr>] \<le> (50 :: nat)"
proof -
  let ?run = "\<lambda>ids :: string list. (Inr [\<lparr>r_rel = Some ''LOCATED_IN'', r_labels = Some [''City'', ''Entity''], r_id = Some ''city_hue'',
                     r_name = Some ''Hue'', r_type = Some ''City'', r_description = Some ''Imperial city'',
                     r_rel2 = Some ''NEAR'', r_labels2 = Some [''Attraction''], r_id2 = Some ''attr_citadel'',
                     r_name2 = Some ''Citadel'', r_type2 = None, r_description2 = None\<rparr>] :: error + graph_record list)"
  let ?facts = "[\<lparr>source = None, rel = Some ''LOCATED_IN'', target_id = Some ''city_hue'', target_name = Some ''Hue'',
            target_desc = ''Imperial city'', labels = Some [''City'', ''Entity'']\<rparr>,
          \<lparr>source = Some ''city_hue'', rel = Some ''NEAR'', target_id = Some ''attr_citadel'',
            target_name = Some ''Citadel'', target_desc = [], labels = Some [''Attraction'']\<rparr>]"
  have run: "fetch_graph_context ?run [''hotel_1''] = Inr ?facts"
    by (simp add: fetch_graph_context_def add_record_def one_hop_def two_hop_def desc400_def truthy_def)
  from fetch_graph_context_bounded_and_ordered [OF run] have "length ?facts \<le> 50" by blast
  with run show ?thesis by blast
qed

text \<open>
  C10. For every response text, \<open>expand_citations\<close> returns the text unchanged when the matches
  and the graph facts are \<open>None\<close> (also the default of the omitted arguments) or empty lists,
  and also when no Match has an id and no GraphFact has a \<open>target_id\<close> (missing or empty):
  every placeholder is then left as it is. Matches without an id and GraphFacts without a
  \<open>target_id\<close> never change the result: dropping them from the lists gives the same text.
\<close>

theorem expand_citations_identity_without_lookup:
  "expand_citations response None None = response
   \<and> expand_citations response (Some []) (Some []) = response
   \<and> (\<forall>ms fs. (\<forall>m \<in> set ms. \<not> truthy (m_id m)) \<and> (\<forall>f \<in> set fs. \<not> truthy (target_id f))
        \<longrightarrow> expand_citations response (Some ms) (Some fs) = response)
   \<and> (\<forall>ms fs. expand_citations response (Some ms) (Some fs)
        = expand_citations response (Some (filter (\<lambda>m. truthy (m_id m)) ms))
            (Some (filter (\<lambda>f. truthy (target_id f)) fs)))"
proof -
  have id: "re_sub citation_pat (repl Map.empty Map.empty) response = response"
    using citation_pat_consumes by (rule re_sub_identity) (rule repl_empty)
  have a: "expand_citations response None None = response"
    using id by (simp add: expand_citations_def meta_by_id_def facts_by_id_def)
  have b: "expand_citations response (Some []) (Some []) = response"
    using id by (simp add: expand_citations_def meta_by_id_def facts_by_id_def)
  have c: "expand_citations response (Some ms) (Some fs) = response"
    if "\<forall>m \<in> set ms. \<not> truthy (m_id m)" "\<forall>f \<in> set fs. \<not> truthy (target_id f)" for ms fs
    using id that by (simp add: expand_citations_def meta_by_id_no_ids facts_by_id_no_ids)
  have d: "expand_citations response (Some ms) (Some fs)
        = expand_citations response (Some (filter (\<lambda>m. truthy (m_id m)) ms))
            (Some (filter (\<lambda>f. truthy (target_id f)) fs))" for ms fs
    by (simp add: expand_citations_def meta_by_id_filter facts_by_id_filter)
  from a b c d show ?thesis by blast
qed

theorem expand_citations_identity_without_lookup_witness:
  "expand_citations ''See [city_hue] and [id: x].''
     (Some [\<lparr>m_id = None, m_score = Some 1, m_metadata = Some \<lparr>md_name = None, md_type = Some ''City'', md_tags = None, md_city = None\<rparr>\<rparr>,
            \<lparr>m_id = Some [], m_score = None, m_metadata = None\<rparr>])
     (Some [\<lparr>source = None, rel = Some ''NEAR'', target_id = None, target_name = Some ''Hue'',
             target_desc = ''A romantic city'', labels = Some [''City'']\<rparr>])
   = ''See [city_hue] and [id: x].''"
proof -
  let ?ms = "[\<lparr>m_id = None, m_score = Some 1, m_metadata = Some \<lparr>md_name = None, md_type = Some ''City'', md_tags = None, md_city = None\<rparr>\<rparr>,
            \<lparr>m_id = Some [], m_score = None, m_metadata = None\<rparr>]"
  let ?fs = "[\<lparr>source = None, rel = Some ''NEAR'', target_id = None, target_name = Some ''Hue'',
             target_desc = ''A romantic city'', labels = Some [''City'']\<rparr>]"
  have "\<forall>m \<in> set ?ms. \<not> truthy (m_id m)" by (simp add: truthy_def)
  moreover have "\<forall>f \<in> set ?fs. \<not> truthy (target_id f)" by (simp add: truthy_def)
  ultimately show ?thesis
    using expand_citations_identity_without_lookup [of "''See [city_hue] and [id: x].''"]
    by blast
qed

text \<open>
  C2, amended. Take a response \<open>pre + "[" + body + "]" + post\<close> in which every \<open>[\<close> of \<open>pre\<close> is
  followed by a \<open>]\<close> inside \<open>pre\<close>, and \<open>body\<close> is not empty and has no \<open>]\<close>, so that
  \<open>[body]\<close> is a placeholder of the scan; its identifier is what the code extracts from
  \<open>body\<close>. If the identifier is the non-empty id of a Match, the output has, between the
  expansions of \<open>pre\<close> and \<open>post\<close>, the citation of the last Match of the list with that id:
  its metadata type, or \<open>Entity\<close> when the type is missing or empty, followed, when its tags are
  not empty, by a space and the tags joined by \<open>", "\<close> in parentheses. If the identifier is the
  id of no Match and the \<open>target_id\<close> of no GraphFact, the placeholder stands there unchanged,
  character for character.
\<close>

theorem expand_citations_placeholder:
  assumes "closed_brackets pre" and "body \<noteq> []" and "CHR '']'' \<notin> set body"
    and "nodeid = placeholder_id body"
  shows
    "(\<forall>before m after.
        matches = before @ m # after \<and> m_id m = Some nodeid \<and> nodeid \<noteq> []
        \<and> (\<forall>m' \<in> set after. m_id m' \<noteq> Some nodeid)
      \<longrightarrow> expand_citations (pre @ ''['' @ body @ '']'' @ post) (Some matches) (Some facts)
          = expand_citations pre (Some matches) (Some facts)
            @ match_citation (get_or (m_metadata m) empty_metadata)
            @ expand_citations post (Some matches) (Some facts))
     \<and> ((\<forall>m \<in> set matches. m_id m \<noteq> Some nodeid) \<and> (\<forall>f \<in> set facts. target_id f \<noteq> Some nodeid)
      \<longrightarrow> expand_citations (pre @ ''['' @ body @ '']'' @ post) (Some matches) (Some facts)
          = expand_citations pre (Some matches) (Some facts)
            @ ''['' @ body @ '']''
            @ expand_citations post (Some matches) (Some facts))
     \<and> (\<forall>meta t. md_type meta = Some t \<and> t \<noteq> []
      \<longrightarrow> match_citation meta
          = (if get_or (md_tags meta) [] = [] then t
             else t @ '' ('' @ join '', '' (get_or (md_tags meta) []) @ '')''))
     \<and> (\<forall>meta. md_type meta = None \<or> md_type meta = Some []
      \<longrightarrow> match_citation meta
          = (if get_or (md_tags meta) [] = [] then ''Entity''
             else ''Entity'' @ '' ('' @ join '', '' (get_or (md_tags meta) []) @ '')''))"
proof -
  let ?metas = "meta_by_id matches" and ?facts = "facts_by_id facts"
  have split: "expand_citations (pre @ ''['' @ body @ '']'' @ post) (Some matches) (Some facts)
      = expand_citations pre (Some matches) (Some facts)
        @ repl ?metas ?facts (group1 body) (''['' @ body @ '']'')
        @ expand_citations post (Some matches) (Some facts)"
    unfolding expand_citations_def Let_def option.case
    using assms(1-3) by (rule re_sub_citation_placeholder)
  have nid: "placeholder_id (group1 body) = nodeid"
    using assms(2,4) by (simp add: placeholder_id_group1)
  have a: "expand_citations (pre @ ''['' @ body @ '']'' @ post) (Some matches) (Some facts)
          = expand_citations pre (Some matches) (Some facts)
            @ match_citation (get_or (m_metadata m) empty_metadata)
            @ expand_citations post (Some matches) (Some facts)"
    if "matches = before @ m # after" "m_id m = Some nodeid" "nodeid \<noteq> []"
      "\<forall>m' \<in> set after. m_id m' \<noteq> Some nodeid" for before m after
  proof -
    from that have "?metas nodeid = Some (get_or (m_metadata m) empty_metadata)"
      by (simp add: meta_by_id_last)
    then have "repl ?metas ?facts (group1 body) (''['' @ body @ '']'')
        = match_citation (get_or (m_metadata m) empty_metadata)"
      by (simp add: repl_def nid)
    with split show ?thesis by simp
  qed
  have b: "expand_citations (pre @ ''['' @ body @ '']'' @ post) (Some matches) (Some facts)
          = expand_citations pre (Some matches) (Some facts)
            @ ''['' @ body @ '']''
            @ expand_citations post (Some matches) (Some facts)"
    if "\<forall>m \<in> set matches. m_id m \<noteq> Some nodeid" "\<forall>f \<in> set facts. target_id f \<noteq> Some nodeid"
  proof -
    from that have "?metas nodeid = None" "?facts nodeid = None"
      by (simp_all add: meta_by_id_absent facts_by_id_absent)
    then have "repl ?metas ?facts (group1 body) (''['' @ body @ '']'') = ''['' @ body @ '']''"
      by (simp add: repl_def nid)
    with split show ?thesis by simp
  qed
  have c: "match_citation meta
          = (if get_or (md_tags meta) [] = [] then t
             else t @ '' ('' @ join '', '' (get_or (md_tags meta) []) @ '')'')"
    if "md_type meta = Some t" "t \<noteq> []" for meta t
    using that by (simp add: match_citation_def)
  have d: "match_citation meta
          = (if get_or (md_tags meta) [] = [] then ''Entity''
             else ''Entity'' @ '' ('' @ join '', '' (get_or (md_tags meta) []) @ '')'')"
    if "md_type meta = None \<or> md_type meta = Some []" for meta
    using that by (auto simp: match_citation_def)
  from a b c d show ?thesis by blast
qed

theorem expand_citations_placeholder_witness:
  "expand_citations (''Visit '' @ ''['' @ ''id: city_hue'' @ '']'' @ '' today.'')
     (Some [\<lparr>m_id = Some ''city_hue'', m_score = Some 1,
              m_metadata = Some \<lparr>md_name = Some ''Hue'', md_type = Some ''City'',
                                 md_tags = Some [''heritage'', ''culture''], md_city = None\<rparr>\<rparr>])
     (Some [])
   = ''Visit City (heritage, culture) today.''
   \<and> expand_citations (''Visit '' @ ''['' @ ''attr_42'' @ '']'' @ '' today.'')
     (Some [\<lparr>m_id = Some ''city_hue'', m_score = Some 1,
              m_metadata = Some \<lparr>md_name = Some ''Hue'', md_type = Some ''City'',
                                 md_tags = Some [''heritage'', ''culture''], md_city = None\<rparr>\<rparr>])
     (Some [])
   = ''Visit [attr_42] today.''"
proof -
  let ?m = "\<lparr>m_id = Some ''city_hue'', m_score = Some 1,
              m_metadata = Some \<lparr>md_name = Some ''Hue'', md_type = Some ''City'',
                                 md_tags = Some [''heritage'', ''culture''], md_city = None\<rparr>\<rparr>"
  have closed: "closed_brackets ''Visit ''" by simp
  have id1: "placeholder_id ''id: city_hue'' = ''city_hue''" by code_simp
  have id2: "placeholder_id ''attr_42'' = ''attr_42''" by code_simp
  have pre: "expand_citations ''Visit '' (Some [?m]) (Some []) = ''Visit ''" by code_simp
  have post: "expand_citations '' today.'' (Some [?m]) (Some []) = '' today.''" by code_simp
  have cite: "match_citation (get_or (m_metadata ?m) empty_metadata) = ''City (heritage, culture)''"
    by (simp add: match_citation_def)
  have last: "[?m] = [] @ ?m # [] \<and> m_id ?m = Some ''city_hue'' \<and> ''city_hue'' \<noteq> []
      \<and> (\<forall>m' \<in> set ([] :: pmatch list). m_id m' \<noteq> Some ''city_hue'')"
    by simp
  have none: "(\<forall>m \<in> set [?m]. m_id m \<noteq> Some ''attr_42'')
      \<and> (\<forall>f \<in> set ([] :: graph_fact list). target_id f \<noteq> Some ''attr_42'')"
    by simp
  have b1: "''id: city_hue'' \<noteq> []" and b2: "CHR '']'' \<notin> set ''id: city_hue''"
    and b3: "''attr_42'' \<noteq> []" and b4: "CHR '']'' \<notin> set ''attr_42''"
    by simp_all
  note th1 = expand_citations_placeholder [OF closed b1 b2 id1 [symmetric], of "[?m]" "'' today.''" "[]"]
  note th2 = expand_citations_placeholder [OF closed b3 b4 id2 [symmetric], of "[?m]" "'' today.''" "[]"]
  from th1 have "\<forall>before m after.
        [?m] = before @ m # after \<and> m_id m = Some ''city_hue'' \<and> ''city_hue'' \<noteq> []
        \<and> (\<forall>m' \<in> set after. m_id m' \<noteq> Some ''city_hue'')
      \<longrightarrow> expand_citations (''Visit '' @ ''['' @ ''id: city_hue'' @ '']'' @ '' today.'') (Some [?m]) (Some [])
          = expand_citations ''Visit '' (Some [?m]) (Some [])
            @ match_citation (get_or (m_metadata m) empty_metadata)
            @ expand_citations '' today.'' (Some [?m]) (Some [])"
    by (rule conjunct1)
  then have "[?m] = [] @ ?m # [] \<and> m_id ?m = Some ''city_hue'' \<and> ''city_hue'' \<noteq> []
        \<and> (\<forall>m' \<in> set ([] :: pmatch list). m_id m' \<noteq> Some ''city_hue'')
      \<longrightarrow> expand_citations (''Visit '' @ ''['' @ ''id: city_hue'' @ '']'' @ '' today.'') (Some [?m]) (Some [])
          = expand_citations ''Visit '' (Some [?m]) (Some [])
            @ match_citation (get_or (m_metadata ?m) empty_metadata)
            @ expand_citations '' today.'' (Some [?m]) (Some [])"
    by (elim allE [where x = "[]"] allE [where x = "?m"])
  with last
  have "expand_citations (''Visit '' @ ''['' @ ''id: city_hue'' @ '']'' @ '' today.'') (Some [?m]) (Some [])
      = expand_citations ''Visit '' (Some [?m]) (Some [])
        @ match_citation (get_or (m_metadata ?m) empty_metadata)
        @ expand_citations '' today.'' (Some [?m]) (Some [])"
    by (rule mp [rotated])
  with pre post cite have one: "expand_citations (''Visit '' @ ''['' @ ''id: city_hue'' @ '']'' @ '' today.'')
      (Some [?m]) (Some []) = ''Visit City (heritage, culture) today.''"
    by simp
  from th2 have "(\<forall>m \<in> set [?m]. m_id m \<noteq> Some ''attr_42'')
      \<and> (\<forall>f \<in> set ([] :: graph_fact list). target_id f \<noteq> Some ''attr_42'')
      \<longrightarrow> expand_citations (''Visit '' @ ''['' @ ''attr_42'' @ '']'' @ '' today.'') (Some [?m]) (Some [])
          = expand_citations ''Visit '' (Some [?m]) (Some [])
            @ ''['' @ ''attr_42'' @ '']''
            @ expand_citations '' today.'' (Some [?m]) (Some [])"
    by (elim conjE)
  with none
  have "expand_citations (''Visit '' @ ''['' @ ''attr_42'' @ '']'' @ '' today.'') (Some [?m]) (Some [])
      = expand_citations ''Visit '' (Some [?m]) (Some [])
        @ ''['' @ ''attr_42'' @ '']''
        @ expand_citations '' today.'' (Some [?m]) (Some [])"
    by (rule mp [rotated])
  with pre post have two: "expand_citations (''Visit '' @ ''['' @ ''attr_42'' @ '']'' @ '' today.'')
      (Some [?m]) (Some []) = ''Visit [attr_42] today.''"
    by simp
  from one two show ?thesis by blast
qed

text \<open>
  C2 as stated fails when two Matches share an id: the dictionary of the code keeps the
  later one, so the placeholder \<open>[a]\<close> is replaced by the type of the second Match and the
  output does not contain the type of the first, whose id the identifier equals.
\<close>

theorem expand_citations_duplicate_id_counterexample:
  "m_id \<lparr>m_id = Some ''a'', m_score = Some 1,
          m_metadata = Some \<lparr>md_name = Some ''Hue'', md_type = Some ''City'', md_tags = None, md_city = None\<rparr>\<rparr>
     = Some (placeholder_id ''a'')
   \<and> expand_citations ''[a]''
        (Some [\<lparr>m_id = Some ''a'', m_score = Some 1,
                 m_metadata = Some \<lparr>md_name = Some ''Hue'', md_type = Some ''City'', md_tags = None, md_city = None\<rparr>\<rparr>,
               \<lparr>m_id = Some ''a'', m_score = Some 0,
                 m_metadata = Some \<lparr>md_name = Some ''Inn'', md_type = Some ''Hotel'', md_tags = None, md_city = None\<rparr>\<rparr>])
        (Some [])
     = ''Hotel''
   \<and> \<not> py_in ''City'' ''Hotel''"
  by code_simp

text \<open>
  C8, amended. \<open>get_text_hash\<close> is deterministic: the same text and model give the same hash.
  Every hash is a string of 64 hexadecimal digits. Two different texts (with the same model)
  always give SHA-256 two different messages, so their hashes are equal only where SHA-256
  itself collides. On the samples of the repository's test, \<open>"hello"\<close> and \<open>"world"\<close> without a
  model, the hashes are the two digests below and differ.
\<close>

theorem get_text_hash_deterministic_collisions_are_sha256:
  "(text1 = text2 \<and> model1 = model2 \<longrightarrow> get_text_hash text1 model1 = get_text_hash text2 model2)
   \<and> length (get_text_hash text1 model1) = 64
   \<and> set (get_text_hash text1 model1) \<subseteq> set ''0123456789abcdef''
   \<and> (text1 \<noteq> text2 \<and> get_text_hash text1 model1 = get_text_hash text2 model1
        \<longrightarrow> (\<exists>k1 k2. k1 \<noteq> k2 \<and> sha256_hexdigest k1 = sha256_hexdigest k2
                     \<and> get_text_hash text1 model1 = sha256_hexdigest k1))
   \<and> get_text_hash ''hello'' None = ''2cf24dba5fb0a30e26e83b2ac5b9e29e1b161e5c1fa7425e73043362938b9824''
   \<and> get_text_hash ''world'' None = ''486ea46224d1bb4fb680f34f7c9ad96a8f24ec88be73ea8e5a6c65260e9cb8a7''
   \<and> get_text_hash ''hello'' None \<noteq> get_text_hash ''world'' None"
proof -
  have len: "length (get_text_hash text1 model1) = 64"
    by (simp add: get_text_hash_def Let_def length_sha256_hexdigest)
  have hex: "set (get_text_hash text1 model1) \<subseteq> set ''0123456789abcdef''"
    unfolding get_text_hash_def Let_def by (rule set_sha256_hexdigest)
  have coll: "\<exists>k1 k2. k1 \<noteq> k2 \<and> sha256_hexdigest k1 = sha256_hexdigest k2
                     \<and> get_text_hash text1 model1 = sha256_hexdigest k1"
    if "text1 \<noteq> text2" "get_text_hash text1 model1 = get_text_hash text2 model1"
  proof -
    define key where "key t = (case model1 of None \<Rightarrow> t | Some m \<Rightarrow> m @ '':'' @ t)" for t :: string
    have h: "get_text_hash t model1 = sha256_hexdigest (encode (key t))" for t
      by (simp add: get_text_hash_def key_def)
    from that(1) have "key text1 \<noteq> key text2" by (simp add: key_def split: option.splits)
    then have "encode (key text1) \<noteq> encode (key text2)" using encode_inj by blast
    with that(2) h show ?thesis by metis
  qed
  have hello: "get_text_hash ''hello'' None = ''2cf24dba5fb0a30e26e83b2ac5b9e29e1b161e5c1fa7425e73043362938b9824''"
    by (simp only: get_text_hash_def Let_def option.case encode_hello sha256_hello)
  have world: "get_text_hash ''world'' None = ''486ea46224d1bb4fb680f34f7c9ad96a8f24ec88be73ea8e5a6c65260e9cb8a7''"
    by (simp only: get_text_hash_def Let_def option.case encode_world sha256_world)
  have ne: "get_text_hash ''hello'' None \<noteq> get_text_hash ''world'' None"
    unfolding hello world by simp
  from len hex coll hello world ne show ?thesis by blast
qed

theorem get_text_hash_deterministic_collisions_are_sha256_witness:
  "get_text_hash ''hello'' (Some ''text-embedding-3-small'') = get_text_hash ''hello'' (Some ''text-embedding-3-small'')
   \<and> length (get_text_hash ''hello'' (Some ''text-embedding-3-small'')) = 64
   \<and> get_text_hash ''hello'' None \<noteq> get_text_hash ''world'' None"
  using get_text_hash_deterministic_collisions_are_sha256
    [of "''hello''" "''hello''" "Some ''text-embedding-3-small''" "Some ''text-embedding-3-small''"]
  by blast

text \<open>
  C8 as stated fails: there are infinitely many texts and finitely many strings of 64
  hexadecimal digits, so for every model two different texts have the same hash.
\<close>

theorem get_text_hash_injective_counterexample:
  "\<not> (\<forall>text1 text2 model. text1 \<noteq> text2 \<longrightarrow> get_text_hash text1 model \<noteq> get_text_hash text2 model)"
proof
  assume a: "\<forall>text1 text2 model. text1 \<noteq> text2 \<longrightarrow> get_text_hash text1 model \<noteq> get_text_hash text2 model"
  have "inj (\<lambda>text0. get_text_hash text0 None)"
  proof (rule injI)
    fix x y assume "get_text_hash x None = get_text_hash y None"
    with a show "x = y" by blast
  qed
  with get_text_hash_not_injective show False by blast
qed

end
